theory Spec2Isabelle
  imports Complex_Main
begin

section \<open>Numbers\<close>

text \<open>
  The geometry code of \<^verbatim>\<open>src/parser/utils.ts\<close> works on JavaScript numbers. Coordinates
  and sizes of nodes are finite, as the scene model supplies them, and are reals here. A
  bounding box starts from \<^verbatim>\<open>Infinity\<close> and \<^verbatim>\<open>-Infinity\<close>, so its components are
  reals extended by the two infinities, ordered as JavaScript orders them. Minimum,
  maximum and comparison are exact in the language as well. The functions whose work is
  to round, \<^verbatim>\<open>roundOffToDecimals\<close> and \<^verbatim>\<open>computeFramePadding\<close> with the box it
  rounds, compute in binary64 arithmetic (next section); the sums in the row classifier
  and in the boxes of groups and rows are left exact.
\<close>

datatype number = NegInfinity | Finite real | Infinity

instantiation number :: linorder
begin

fun less_eq_number :: "number \<Rightarrow> number \<Rightarrow> bool" where
  "less_eq_number NegInfinity _ = True"
| "less_eq_number (Finite a) NegInfinity = False"
| "less_eq_number (Finite a) (Finite b) = (a \<le> b)"
| "less_eq_number (Finite a) Infinity = True"
| "less_eq_number Infinity Infinity = True"
| "less_eq_number Infinity _ = False"

definition less_number :: "number \<Rightarrow> number \<Rightarrow> bool" where
  "less_number a b = (a \<le> b \<and> \<not> b \<le> a)"

instance
proof
  fix a b c :: number
  show "(a < b) = (a \<le> b \<and> \<not> b \<le> a)"
    by (simp add: less_number_def)
  show "a \<le> a"
    by (cases a) simp_all
  show "a \<le> b \<Longrightarrow> b \<le> c \<Longrightarrow> a \<le> c"
    by (cases a; cases b; cases c) simp_all
  show "a \<le> b \<Longrightarrow> b \<le> a \<Longrightarrow> a = b"
    by (cases a; cases b) simp_all
  show "a \<le> b \<or> b \<le> a"
    by (cases a; cases b) auto
qed

end

section \<open>Binary64 arithmetic\<close>

text \<open>
  \<^verbatim>\<open>roundOffToDecimals\<close> and \<^verbatim>\<open>computeFramePadding\<close> exist to round, so what they
  compute is modelled in the arithmetic of the language: every sum, difference, product
  and quotient is the exact result rounded to the nearest binary64 value, a tie going to
  the even significand, and a result of magnitude \<open>2 ^ 1024\<close> or more after rounding
  becoming an infinity.

  \<open>ulp_exponent x\<close> is the exponent of the last bit of the significand of the binary64
  values around \<open>x\<close>: 52 below the exponent of \<open>x\<close>, and \<open>-1074\<close> in the subnormal range.
\<close>

definition round_half_even :: "real \<Rightarrow> int" where
  "round_half_even r =
     (let f = \<lfloor>r\<rfloor> in
      if r - of_int f < 1 / 2 then f
      else if 1 / 2 < r - of_int f then f + 1
      else if even f then f else f + 1)"

definition ulp_exponent :: "real \<Rightarrow> int" where
  "ulp_exponent x = max (\<lfloor>log 2 \<bar>x\<bar>\<rfloor> - 52) (- 1074)"

definition to_double :: "real \<Rightarrow> number" where
  "to_double x =
     (if x = 0 then Finite 0
      else let q = ulp_exponent x;
               r = of_int (round_half_even (x / 2 powi q)) * 2 powi q
           in if 2 ^ 1024 \<le> r then Infinity
              else if r \<le> - (2 ^ 1024) then NegInfinity
              else Finite r)"

text \<open>A value of the language: a number or \<^verbatim>\<open>NaN\<close>. The sign of a zero is not kept.\<close>

datatype js_number = NaN | Number number

fun js_sub :: "js_number \<Rightarrow> js_number \<Rightarrow> js_number" where
  "js_sub (Number (Finite a)) (Number (Finite b)) = Number (to_double (a - b))"
| "js_sub (Number (Finite a)) (Number Infinity) = Number NegInfinity"
| "js_sub (Number (Finite a)) (Number NegInfinity) = Number Infinity"
| "js_sub (Number Infinity) (Number Infinity) = NaN"
| "js_sub (Number Infinity) (Number (Finite b)) = Number Infinity"
| "js_sub (Number Infinity) (Number NegInfinity) = Number Infinity"
| "js_sub (Number NegInfinity) (Number NegInfinity) = NaN"
| "js_sub (Number NegInfinity) (Number (Finite b)) = Number NegInfinity"
| "js_sub (Number NegInfinity) (Number Infinity) = Number NegInfinity"
| "js_sub NaN b = NaN"
| "js_sub (Number a) NaN = NaN"

fun js_mul :: "js_number \<Rightarrow> js_number \<Rightarrow> js_number" where
  "js_mul (Number (Finite a)) (Number (Finite b)) = Number (to_double (a * b))"
| "js_mul (Number (Finite a)) (Number Infinity) =
     (if a = 0 then NaN else if 0 < a then Number Infinity else Number NegInfinity)"
| "js_mul (Number (Finite a)) (Number NegInfinity) =
     (if a = 0 then NaN else if 0 < a then Number NegInfinity else Number Infinity)"
| "js_mul (Number Infinity) (Number (Finite b)) =
     (if b = 0 then NaN else if 0 < b then Number Infinity else Number NegInfinity)"
| "js_mul (Number NegInfinity) (Number (Finite b)) =
     (if b = 0 then NaN else if 0 < b then Number NegInfinity else Number Infinity)"
| "js_mul (Number Infinity) (Number Infinity) = Number Infinity"
| "js_mul (Number Infinity) (Number NegInfinity) = Number NegInfinity"
| "js_mul (Number NegInfinity) (Number Infinity) = Number NegInfinity"
| "js_mul (Number NegInfinity) (Number NegInfinity) = Number Infinity"
| "js_mul NaN b = NaN"
| "js_mul (Number a) NaN = NaN"

text \<open>A zero divisor counts as \<open>+0\<close>.\<close>

fun js_div :: "js_number \<Rightarrow> js_number \<Rightarrow> js_number" where
  "js_div (Number (Finite a)) (Number (Finite b)) =
     (if b = 0
      then (if a = 0 then NaN else if 0 < a then Number Infinity else Number NegInfinity)
      else Number (to_double (a / b)))"
| "js_div (Number (Finite a)) (Number Infinity) = Number (Finite 0)"
| "js_div (Number (Finite a)) (Number NegInfinity) = Number (Finite 0)"
| "js_div (Number Infinity) (Number (Finite b)) =
     (if 0 \<le> b then Number Infinity else Number NegInfinity)"
| "js_div (Number NegInfinity) (Number (Finite b)) =
     (if 0 \<le> b then Number NegInfinity else Number Infinity)"
| "js_div (Number Infinity) (Number Infinity) = NaN"
| "js_div (Number Infinity) (Number NegInfinity) = NaN"
| "js_div (Number NegInfinity) (Number Infinity) = NaN"
| "js_div (Number NegInfinity) (Number NegInfinity) = NaN"
| "js_div NaN b = NaN"
| "js_div (Number a) NaN = NaN"

text \<open>\<^verbatim>\<open>Math.round\<close>: the nearest integer, a tie going up; an infinity and \<^verbatim>\<open>NaN\<close>
  stay as they are.\<close>

fun Math_round :: "js_number \<Rightarrow> js_number" where
  "Math_round (Number (Finite x)) = Number (Finite (of_int \<lfloor>x + 1 / 2\<rfloor>))"
| "Math_round (Number Infinity) = Number Infinity"
| "Math_round (Number NegInfinity) = Number NegInfinity"
| "Math_round NaN = NaN"

text \<open>\<^verbatim>\<open>10 ** decimals\<close>, taken correctly rounded; it is exact up to \<open>10 ^ 22\<close>, and the
  callers in the file pass no \<open>decimals\<close>, which is 2.\<close>

definition js_pow10 :: "nat \<Rightarrow> js_number" where
  "js_pow10 decimals = Number (to_double (10 ^ decimals))"

text \<open>\<^verbatim>\<open>Math.round(value * 10 ** decimals) / 10 ** decimals\<close>\<close>

definition roundOffToDecimals :: "js_number \<Rightarrow> nat \<Rightarrow> js_number" where
  "roundOffToDecimals v decimals =
     js_div (Math_round (js_mul v (js_pow10 decimals))) (js_pow10 decimals)"

section \<open>Data model\<close>

text \<open>An element of the scene (\<^verbatim>\<open>NonDeletedExcalidrawElement\<close>), with the fields the
  geometry reads; \<open>el_type\<close> is never \<^verbatim>\<open>"group"\<close>, which is the tag of a group node.\<close>

record element =
  el_id :: string
  el_type :: string
  el_frameId :: "string option"
  el_x :: real
  el_y :: real
  el_width :: real
  el_height :: real

text \<open>\<^verbatim>\<open>TreeNode\<close>: an element or a group; a group owns its children and, once
  processed, its rows.\<close>

datatype tree_node = Element element | GroupN group_node
and group_node =
  GroupNode (g_id: string) (g_x: real) (g_y: real) (g_width: real) (g_height: real)
    (children: "tree_node list") (rows: "tree_node list list")

type_synonym RowItem = "tree_node list"

fun node_x :: "tree_node \<Rightarrow> real" where
  "node_x (Element e) = el_x e"
| "node_x (GroupN g) = g_x g"

fun node_y :: "tree_node \<Rightarrow> real" where
  "node_y (Element e) = el_y e"
| "node_y (GroupN g) = g_y g"

fun node_width :: "tree_node \<Rightarrow> real" where
  "node_width (Element e) = el_width e"
| "node_width (GroupN g) = g_width g"

fun node_height :: "tree_node \<Rightarrow> real" where
  "node_height (Element e) = el_height e"
| "node_height (GroupN g) = g_height g"

text \<open>\<^verbatim>\<open>{ ...group, rows: r }\<close>\<close>

definition with_rows :: "group_node \<Rightarrow> RowItem list \<Rightarrow> group_node" where
  "with_rows g r = GroupNode (g_id g) (g_x g) (g_y g) (g_width g) (g_height g) (children g) r"

record bounding_box =
  minX :: number
  minY :: number
  maxX :: number
  maxY :: number

record padding =
  pad_left :: js_number
  pad_top :: js_number
  pad_right :: js_number
  pad_bottom :: js_number

section \<open>Bounding boxes\<close>

text \<open>\<^verbatim>\<open>computeGroupNodeBoundingBox\<close>: the \<^verbatim>\<open>for\<close> loop over \<^verbatim>\<open>node.children\<close> is
  \<open>computeGroupNodeBoundingBox_loop\<close>, which carries the four running bounds.\<close>

function computeGroupNodeBoundingBox :: "group_node \<Rightarrow> bounding_box"
and computeGroupNodeBoundingBox_loop :: "tree_node list \<Rightarrow> bounding_box \<Rightarrow> bounding_box" where
  "computeGroupNodeBoundingBox node =
     computeGroupNodeBoundingBox_loop (children node)
       \<lparr>minX = Infinity, minY = Infinity, maxX = NegInfinity, maxY = NegInfinity\<rparr>"
| "computeGroupNodeBoundingBox_loop [] bb = bb"
| "computeGroupNodeBoundingBox_loop (GroupN child # rest) bb =
     (let boundingBox = computeGroupNodeBoundingBox child in
      computeGroupNodeBoundingBox_loop rest
        \<lparr>minX = min (minX bb) (minX boundingBox),
         minY = min (minY bb) (minY boundingBox),
         maxX = max (maxX bb) (maxX boundingBox),
         maxY = max (maxY bb) (maxY boundingBox)\<rparr>)"
| "computeGroupNodeBoundingBox_loop (Element child # rest) bb =
     computeGroupNodeBoundingBox_loop rest
       \<lparr>minX = min (minX bb) (Finite (el_x child)),
        minY = min (minY bb) (Finite (el_y child)),
        maxX = max (maxX bb) (Finite (el_x child + el_width child)),
        maxY = max (maxY bb) (Finite (el_y child + el_height child))\<rparr>"
  by pat_completeness auto

text \<open>The recursion goes from a group to its children and from a child that is a group
  into that group: the size of the tree still to be read goes down at every call.\<close>

definition computeGroupNodeBoundingBox_measure ::
  "group_node + tree_node list \<times> bounding_box \<Rightarrow> nat" where
  "computeGroupNodeBoundingBox_measure a =
     (case a of Inl node \<Rightarrow> size node | Inr (nodes, bb) \<Rightarrow> size_list size nodes)"

termination computeGroupNodeBoundingBox
proof (relation "measure computeGroupNodeBoundingBox_measure")
  fix node :: group_node
  show "(Inr (children node,
              \<lparr>minX = Infinity, minY = Infinity, maxX = NegInfinity, maxY = NegInfinity\<rparr>),
         Inl node)
        \<in> measure computeGroupNodeBoundingBox_measure"
    by (cases node) (simp add: computeGroupNodeBoundingBox_measure_def)
qed (simp_all add: computeGroupNodeBoundingBox_measure_def)

text \<open>\<^verbatim>\<open>computeFrameNodeBoundingBox\<close>, whose box \<^verbatim>\<open>computeFramePadding\<close> rounds: the sums
  \<^verbatim>\<open>element.x + element.width\<close> and \<^verbatim>\<open>element.y + element.height\<close> are binary64 sums.\<close>

fun computeFrameNodeBoundingBox_loop :: "element list \<Rightarrow> bounding_box \<Rightarrow> bounding_box" where
  "computeFrameNodeBoundingBox_loop [] bb = bb"
| "computeFrameNodeBoundingBox_loop (element # rest) bb =
     computeFrameNodeBoundingBox_loop rest
       \<lparr>minX = min (minX bb) (Finite (el_x element)),
        minY = min (minY bb) (Finite (el_y element)),
        maxX = max (maxX bb) (to_double (el_x element + el_width element)),
        maxY = max (maxY bb) (to_double (el_y element + el_height element))\<rparr>"

definition computeFrameNodeBoundingBox :: "element \<Rightarrow> element list \<Rightarrow> bounding_box" where
  "computeFrameNodeBoundingBox frame elements =
     (let frameElements = filter (\<lambda>element. el_frameId element = Some (el_id frame)) elements in
      computeFrameNodeBoundingBox_loop frameElements
        \<lparr>minX = Infinity, minY = Infinity, maxX = NegInfinity, maxY = NegInfinity\<rparr>)"

fun computeRowBoundingBox_loop :: "RowItem \<Rightarrow> bounding_box \<Rightarrow> bounding_box" where
  "computeRowBoundingBox_loop [] bb = bb"
| "computeRowBoundingBox_loop (element # rest) bb =
     computeRowBoundingBox_loop rest
       \<lparr>minX = min (minX bb) (Finite (node_x element)),
        minY = min (minY bb) (Finite (node_y element)),
        maxX = max (maxX bb) (Finite (node_x element + node_width element)),
        maxY = max (maxY bb) (Finite (node_y element + node_height element))\<rparr>"

text \<open>\<^verbatim>\<open>row: RowItem | null\<close>; \<^verbatim>\<open>!row\<close> holds of \<^verbatim>\<open>null\<close> only, an empty array
  being truthy.\<close>

fun computeRowBoundingBox :: "RowItem option \<Rightarrow> bounding_box" where
  "computeRowBoundingBox None =
     \<lparr>minX = Finite 0, minY = Finite 0, maxX = Finite 0, maxY = Finite 0\<rparr>"
| "computeRowBoundingBox (Some row) =
     computeRowBoundingBox_loop row
       \<lparr>minX = Infinity, minY = Infinity, maxX = NegInfinity, maxY = NegInfinity\<rparr>"

definition computeFramePadding :: "element \<Rightarrow> element list \<Rightarrow> padding" where
  "computeFramePadding frame elements =
     (let boundingBox = computeFrameNodeBoundingBox frame elements in
      \<lparr>pad_left = roundOffToDecimals
         (js_sub (Number (minX boundingBox)) (Number (Finite (el_x frame)))) 2,
       pad_top = roundOffToDecimals
         (js_sub (Number (minY boundingBox)) (Number (Finite (el_y frame)))) 2,
       pad_right = roundOffToDecimals
         (js_sub (Number (to_double (el_x frame + el_width frame)))
            (Number (maxX boundingBox))) 2,
       pad_bottom = roundOffToDecimals
         (js_sub (Number (to_double (el_y frame + el_height frame)))
            (Number (maxY boundingBox))) 2\<rparr>)"

section \<open>Rows\<close>

text \<open>\<^verbatim>\<open>ROW_THRESHOLD_GAP\<close> is imported from \<^verbatim>\<open>../constants\<close>; it is the first argument
  of the functions that read it.\<close>

definition areInSameRow :: "real \<Rightarrow> tree_node \<Rightarrow> tree_node \<Rightarrow> bool" where
  "areInSameRow ROW_THRESHOLD_GAP node1 node2 =
     (let node1Top = node_y node1;
          node1Bottom = node_y node1 + node_height node1;
          node2Top = node_y node2;
          node2Bottom = node_y node2 + node_height node2;
          overlap = min node1Bottom node2Bottom - max node1Top node2Top
      in overlap > ROW_THRESHOLD_GAP)"

text \<open>\<^verbatim>\<open>splitIntoRows\<close>: the argument may be missing (\<^verbatim>\<open>!nodes\<close>), which is \<open>None\<close>.
  The \<^verbatim>\<open>for\<close> loop from index 1 is \<open>splitIntoRows_loop\<close> on the children still to
  come, carrying \<^verbatim>\<open>result\<close>, \<^verbatim>\<open>currentRow\<close> and \<^verbatim>\<open>previousElement\<close>; after the last
  child it pushes \<^verbatim>\<open>currentRow\<close>.\<close>

function splitIntoRows :: "real \<Rightarrow> tree_node list option \<Rightarrow> RowItem list"
and splitIntoRows_loop ::
  "real \<Rightarrow> tree_node list \<Rightarrow> RowItem list \<Rightarrow> RowItem \<Rightarrow> tree_node \<Rightarrow> RowItem list" where
  "splitIntoRows gap None = []"
| "splitIntoRows gap (Some []) = []"
| "splitIntoRows gap (Some (GroupN firstChild # rest)) =
     (let groupNodeRows = splitIntoRows gap (Some (children firstChild)) in
      [[GroupN (with_rows firstChild groupNodeRows)]])"
| "splitIntoRows gap (Some (Element firstChild # rest)) =
     splitIntoRows_loop gap rest [] [Element firstChild] (Element firstChild)"
| "splitIntoRows_loop gap [] result currentRow previousElement = result @ [currentRow]"
| "splitIntoRows_loop gap (GroupN groupNode # rest) result currentRow previousElement =
     (let groupNodeRowElement = splitIntoRows gap (Some (children groupNode));
          groupNodeRow = GroupN (with_rows groupNode groupNodeRowElement)
      in if areInSameRow gap groupNodeRow previousElement
         then splitIntoRows_loop gap rest result (currentRow @ [groupNodeRow]) groupNodeRow
         else splitIntoRows_loop gap rest (result @ [currentRow]) [groupNodeRow] groupNodeRow)"
| "splitIntoRows_loop gap (Element child # rest) result currentRow previousElement =
     (if areInSameRow gap (Element child) previousElement
      then splitIntoRows_loop gap rest result (currentRow @ [Element child]) (Element child)
      else splitIntoRows_loop gap rest (result @ [currentRow]) [Element child] (Element child))"
  by pat_completeness auto

definition splitIntoRows_measure ::
  "real \<times> tree_node list option +
   real \<times> tree_node list \<times> RowItem list \<times> RowItem \<times> tree_node \<Rightarrow> nat" where
  "splitIntoRows_measure a =
     (case a of
        Inl (gap, None) \<Rightarrow> 0
      | Inl (gap, Some nodes) \<Rightarrow> Suc (size_list size nodes)
      | Inr (gap, nodes, result, currentRow, previousElement) \<Rightarrow> Suc (size_list size nodes))"

termination splitIntoRows
proof (relation "measure splitIntoRows_measure")
  fix gap :: real and firstChild :: group_node and rest :: "tree_node list"
  show "(Inl (gap, Some (children firstChild)), Inl (gap, Some (GroupN firstChild # rest)))
        \<in> measure splitIntoRows_measure"
    by (cases firstChild) (simp add: splitIntoRows_measure_def)
next
  fix gap :: real and groupNode :: group_node and rest :: "tree_node list"
    and result :: "RowItem list" and currentRow :: RowItem and previousElement :: tree_node
  show "(Inl (gap, Some (children groupNode)),
         Inr (gap, GroupN groupNode # rest, result, currentRow, previousElement))
        \<in> measure splitIntoRows_measure"
    by (cases groupNode) (simp add: splitIntoRows_measure_def)
qed (simp_all add: splitIntoRows_measure_def)

section \<open>Formatting\<close>

text \<open>\<^verbatim>\<open>formatCode\<close> awaits \<^verbatim>\<open>prettier.format\<close> inside \<^verbatim>\<open>try\<close>. The formatter is
  external: \<open>format\<close> gives the outcome of the awaited call, \<open>Inl\<close> an exception or a
  rejection. The outcome of \<^verbatim>\<open>formatCode\<close>'s own promise is a sum of the same kind,
  paired with what it wrote to the console.\<close>

datatype 'e console_line = ConsoleError string 'e

definition formatCode ::
  "(string \<Rightarrow> 'e + string) \<Rightarrow> string \<Rightarrow> ('e + string) \<times> 'e console_line list" where
  "formatCode format code =
     (case format code of
        Inr formattedCode \<Rightarrow> (Inr formattedCode, [])
      | Inl error \<Rightarrow> (Inr code, [ConsoleError ''Prettier formatting failed'' error]))"

section \<open>Reading of nodes\<close>

text \<open>
  The two recursive functions once more, each returning beside its result the positions
  of the nodes it reads out of a children array (\<^verbatim>\<open>nodes[0]\<close>, \<^verbatim>\<open>nodes[i]\<close>,
  \<^verbatim>\<open>for (const child of node.children)\<close>), in the order of reading. A position is the
  list of indices that leads from the outermost sequence to the node; \<open>path\<close> is the
  position of the group whose children are read, \<open>i\<close> the index of the next child.
\<close>

fun node_at :: "tree_node list \<Rightarrow> nat list \<Rightarrow> tree_node option" where
  "node_at nodes [] = None"
| "node_at nodes [i] = (if i < length nodes then Some (nodes ! i) else None)"
| "node_at nodes (i # j # p) =
     (if i < length nodes
      then (case nodes ! i of GroupN g \<Rightarrow> node_at (children g) (j # p) | Element e \<Rightarrow> None)
      else None)"

function computeGroupNodeBoundingBox_visiting ::
  "nat list \<Rightarrow> group_node \<Rightarrow> bounding_box \<times> nat list list"
and computeGroupNodeBoundingBox_loop_visiting ::
  "nat list \<Rightarrow> nat \<Rightarrow> tree_node list \<Rightarrow> bounding_box \<Rightarrow> bounding_box \<times> nat list list" where
  "computeGroupNodeBoundingBox_visiting path node =
     computeGroupNodeBoundingBox_loop_visiting path 0 (children node)
       \<lparr>minX = Infinity, minY = Infinity, maxX = NegInfinity, maxY = NegInfinity\<rparr>"
| "computeGroupNodeBoundingBox_loop_visiting path i [] bb = (bb, [])"
| "computeGroupNodeBoundingBox_loop_visiting path i (GroupN child # rest) bb =
     (let (boundingBox, inner) = computeGroupNodeBoundingBox_visiting (path @ [i]) child;
          (box, later) = computeGroupNodeBoundingBox_loop_visiting path (Suc i) rest
            \<lparr>minX = min (minX bb) (minX boundingBox),
             minY = min (minY bb) (minY boundingBox),
             maxX = max (maxX bb) (maxX boundingBox),
             maxY = max (maxY bb) (maxY boundingBox)\<rparr>
      in (box, (path @ [i]) # inner @ later))"
| "computeGroupNodeBoundingBox_loop_visiting path i (Element child # rest) bb =
     (let (box, later) = computeGroupNodeBoundingBox_loop_visiting path (Suc i) rest
            \<lparr>minX = min (minX bb) (Finite (el_x child)),
             minY = min (minY bb) (Finite (el_y child)),
             maxX = max (maxX bb) (Finite (el_x child + el_width child)),
             maxY = max (maxY bb) (Finite (el_y child + el_height child))\<rparr>
      in (box, (path @ [i]) # later))"
  by pat_completeness auto

termination computeGroupNodeBoundingBox_visiting
proof (relation "measure (\<lambda>a. case a of Inl (path, node) \<Rightarrow> size node
                                      | Inr (path, i, nodes, bb) \<Rightarrow> size_list size nodes)")
  fix path :: "nat list" and node :: group_node
  show "(Inr (path, 0, children node,
              \<lparr>minX = Infinity, minY = Infinity, maxX = NegInfinity, maxY = NegInfinity\<rparr>),
         Inl (path, node))
        \<in> measure (\<lambda>a. case a of Inl (path, node) \<Rightarrow> size node
                                 | Inr (path, i, nodes, bb) \<Rightarrow> size_list size nodes)"
    by (cases node) simp
qed simp_all

function splitIntoRows_visiting ::
  "nat list \<Rightarrow> real \<Rightarrow> tree_node list option \<Rightarrow> RowItem list \<times> nat list list"
and splitIntoRows_loop_visiting ::
  "nat list \<Rightarrow> nat \<Rightarrow> real \<Rightarrow> tree_node list \<Rightarrow> RowItem list \<Rightarrow> RowItem \<Rightarrow> tree_node
   \<Rightarrow> RowItem list \<times> nat list list" where
  "splitIntoRows_visiting path gap None = ([], [])"
| "splitIntoRows_visiting path gap (Some []) = ([], [])"
| "splitIntoRows_visiting path gap (Some (GroupN firstChild # rest)) =
     (let (groupNodeRows, inner) =
            splitIntoRows_visiting (path @ [0]) gap (Some (children firstChild))
      in ([[GroupN (with_rows firstChild groupNodeRows)]], (path @ [0]) # inner))"
| "splitIntoRows_visiting path gap (Some (Element firstChild # rest)) =
     (let (result, later) =
            splitIntoRows_loop_visiting path 1 gap rest [] [Element firstChild]
              (Element firstChild)
      in (result, (path @ [0]) # later))"
| "splitIntoRows_loop_visiting path i gap [] result currentRow previousElement =
     (result @ [currentRow], [])"
| "splitIntoRows_loop_visiting path i gap (GroupN groupNode # rest) result currentRow
     previousElement =
     (let (groupNodeRowElement, inner) =
            splitIntoRows_visiting (path @ [i]) gap (Some (children groupNode));
          groupNodeRow = GroupN (with_rows groupNode groupNodeRowElement);
          (final, later) =
            (if areInSameRow gap groupNodeRow previousElement
             then splitIntoRows_loop_visiting path (Suc i) gap rest result
                    (currentRow @ [groupNodeRow]) groupNodeRow
             else splitIntoRows_loop_visiting path (Suc i) gap rest (result @ [currentRow])
                    [groupNodeRow] groupNodeRow)
      in (final, (path @ [i]) # inner @ later))"
| "splitIntoRows_loop_visiting path i gap (Element child # rest) result currentRow
     previousElement =
     (let (final, later) =
            (if areInSameRow gap (Element child) previousElement
             then splitIntoRows_loop_visiting path (Suc i) gap rest result
                    (currentRow @ [Element child]) (Element child)
             else splitIntoRows_loop_visiting path (Suc i) gap rest (result @ [currentRow])
                    [Element child] (Element child))
      in (final, (path @ [i]) # later))"
  by pat_completeness auto

termination splitIntoRows_visiting
proof (relation "measure (\<lambda>a. case a of
                   Inl (path, gap, None) \<Rightarrow> 0
                 | Inl (path, gap, Some nodes) \<Rightarrow> Suc (size_list size nodes)
                 | Inr (path, i, gap, nodes, result, currentRow, previousElement) \<Rightarrow>
                     Suc (size_list size nodes))")
  fix path :: "nat list" and gap :: real and firstChild :: group_node and rest :: "tree_node list"
  show "(Inl (path @ [0], gap, Some (children firstChild)),
         Inl (path, gap, Some (GroupN firstChild # rest)))
        \<in> measure (\<lambda>a. case a of
                   Inl (path, gap, None) \<Rightarrow> 0
                 | Inl (path, gap, Some nodes) \<Rightarrow> Suc (size_list size nodes)
                 | Inr (path, i, gap, nodes, result, currentRow, previousElement) \<Rightarrow>
                     Suc (size_list size nodes))"
    by (cases firstChild) simp
next
  fix path :: "nat list" and i :: nat and gap :: real and groupNode :: group_node
    and rest :: "tree_node list"
    and result :: "RowItem list" and currentRow :: RowItem and previousElement :: tree_node
  show "(Inl (path @ [i], gap, Some (children groupNode)),
         Inr (path, i, gap, GroupN groupNode # rest, result, currentRow, previousElement))
        \<in> measure (\<lambda>a. case a of
                   Inl (path, gap, None) \<Rightarrow> 0
                 | Inl (path, gap, Some nodes) \<Rightarrow> Suc (size_list size nodes)
                 | Inr (path, i, gap, nodes, result, currentRow, previousElement) \<Rightarrow>
                     Suc (size_list size nodes))"
    by (cases groupNode) simp
qed simp_all

section \<open>The tree as such\<close>

text \<open>What the properties below are stated against: the nodes of a tree, the elements
  at its leaves, the box of one child, and the union of two boxes.\<close>

primrec elements_of :: "tree_node \<Rightarrow> element list"
and elements_of_group :: "group_node \<Rightarrow> element list" where
  "elements_of (Element e) = [e]"
| "elements_of (GroupN g) = elements_of_group g"
| "elements_of_group (GroupNode i x y w h cs r) = concat (map elements_of cs)"

definition empty_box :: bounding_box where
  "empty_box = \<lparr>minX = Infinity, minY = Infinity, maxX = NegInfinity, maxY = NegInfinity\<rparr>"

definition box_union :: "bounding_box \<Rightarrow> bounding_box \<Rightarrow> bounding_box" where
  "box_union a b =
     \<lparr>minX = min (minX a) (minX b), minY = min (minY a) (minY b),
      maxX = max (maxX a) (maxX b), maxY = max (maxY a) (maxY b)\<rparr>"

text \<open>A child's own box: an element's from its position and size, a group's recomputed
  from its children, not read from its stored position and size.\<close>

fun own_box :: "tree_node \<Rightarrow> bounding_box" where
  "own_box (Element e) =
     \<lparr>minX = Finite (el_x e), minY = Finite (el_y e),
      maxX = Finite (el_x e + el_width e), maxY = Finite (el_y e + el_height e)\<rparr>"
| "own_box (GroupN g) = computeGroupNodeBoundingBox g"

text \<open>A group in a row, as \<^verbatim>\<open>splitIntoRows\<close> is to leave it: its children segmented
  into its \<open>rows\<close>.\<close>

fun segmented :: "real \<Rightarrow> tree_node \<Rightarrow> tree_node" where
  "segmented gap (Element e) = Element e"
| "segmented gap (GroupN g) = GroupN (with_rows g (splitIntoRows gap (Some (children g))))"

text \<open>A box covers another.\<close>

definition covers :: "bounding_box \<Rightarrow> bounding_box \<Rightarrow> bool" where
  "covers outer inner \<longleftrightarrow>
     minX outer \<le> minX inner \<and> minY outer \<le> minY inner \<and>
     maxX inner \<le> maxX outer \<and> maxY inner \<le> maxY outer"

text \<open>Within a row, each node is in the same row as the one before it.\<close>

fun chained :: "real \<Rightarrow> RowItem \<Rightarrow> bool" where
  "chained gap [] = True"
| "chained gap [a] = True"
| "chained gap (a # b # rest) = (areInSameRow gap b a \<and> chained gap (b # rest))"

text \<open>The first node of a row is not in the same row as the last node of the row before.\<close>

fun separated :: "real \<Rightarrow> RowItem list \<Rightarrow> bool" where
  "separated gap [] = True"
| "separated gap [r] = True"
| "separated gap (r1 # r2 # rs) =
     ((\<not> areInSameRow gap (hd r2) (last r1)) \<and> separated gap (r2 # rs))"

text \<open>The positions of the nodes of a tree: those where \<open>node_at\<close> finds a node.\<close>

definition positions :: "tree_node list \<Rightarrow> nat list set" where
  "positions nodes = {p. node_at nodes p \<noteq> None}"

fun shift :: "nat \<Rightarrow> nat list \<Rightarrow> nat list" where
  "shift i [] = []"
| "shift i (k # q) = (i + k) # q"

text \<open>The positions reached from index \<open>i\<close> on under \<open>path\<close>.\<close>

definition under :: "nat list \<Rightarrow> nat \<Rightarrow> tree_node list \<Rightarrow> nat list set" where
  "under path i nodes = (\<lambda>q. path @ shift i q) ` positions nodes"

text \<open>A value with two decimals, as far as binary64 has one: the binary64 value nearest
  to a whole number of hundredths, or an infinity or \<^verbatim>\<open>NaN\<close>.\<close>

definition two_decimals :: "js_number \<Rightarrow> bool" where
  "two_decimals p \<longleftrightarrow>
     p \<in> {NaN, Number Infinity, Number NegInfinity}
     \<or> (\<exists>n :: int. p = Number (to_double (of_int n / 100)))"

section \<open>Example scenes\<close>

text \<open>A rectangle outside every frame, and one inside the frame \<open>f\<close>.\<close>

abbreviation rect :: "string \<Rightarrow> real \<Rightarrow> real \<Rightarrow> real \<Rightarrow> real \<Rightarrow> element" where
  "rect i x y w h \<equiv>
     \<lparr>el_id = i, el_type = ''rectangle'', el_frameId = None,
      el_x = x, el_y = y, el_width = w, el_height = h\<rparr>"

abbreviation rect_in :: "string \<Rightarrow> string \<Rightarrow> real \<Rightarrow> real \<Rightarrow> real \<Rightarrow> real \<Rightarrow> element" where
  "rect_in f i x y w h \<equiv>
     \<lparr>el_id = i, el_type = ''rectangle'', el_frameId = Some f,
      el_x = x, el_y = y, el_width = w, el_height = h\<rparr>"

abbreviation frame_el :: "string \<Rightarrow> real \<Rightarrow> real \<Rightarrow> real \<Rightarrow> real \<Rightarrow> element" where
  "frame_el i x y w h \<equiv>
     \<lparr>el_id = i, el_type = ''frame'', el_frameId = None,
      el_x = x, el_y = y, el_width = w, el_height = h\<rparr>"

section \<open>The row classifier\<close>

text \<open>
  C3. For every pair of nodes, \<^verbatim>\<open>areInSameRow\<close> holds exactly when the vertical overlap
  \<open>min (a.y + a.height) (b.y + b.height) - max a.y b.y\<close> is strictly greater than the
  threshold; an overlap equal to the threshold or below it gives false.
\<close>

theorem areInSameRow_strict_overlap:
  "(areInSameRow gap a b \<longleftrightarrow>
      min (node_y a + node_height a) (node_y b + node_height b) - max (node_y a) (node_y b) > gap)
   \<and> (min (node_y a + node_height a) (node_y b + node_height b) - max (node_y a) (node_y b) \<le> gap
        \<longrightarrow> \<not> areInSameRow gap a b)"
  by (simp add: areInSameRow_def Let_def)

text \<open>Two rectangles whose overlap is exactly the threshold 3 are not in the same row.\<close>

theorem areInSameRow_strict_overlap_witness:
  "min (node_y (Element (rect ''a'' 0 0 10 10)) + node_height (Element (rect ''a'' 0 0 10 10)))
       (node_y (Element (rect ''b'' 0 7 10 10)) + node_height (Element (rect ''b'' 0 7 10 10)))
     - max (node_y (Element (rect ''a'' 0 0 10 10))) (node_y (Element (rect ''b'' 0 7 10 10))) \<le> 3
   \<and> \<not> areInSameRow 3 (Element (rect ''a'' 0 0 10 10)) (Element (rect ''b'' 0 7 10 10))"
  using areInSameRow_strict_overlap
    [of 3 "Element (rect ''a'' 0 0 10 10)" "Element (rect ''b'' 0 7 10 10)"]
  by simp

section \<open>Row segmentation\<close>

text \<open>
  C2. When the first child is a group, \<^verbatim>\<open>splitIntoRows\<close> returns exactly one row, which
  holds only that group: the group as it was given, field by field, but for its \<open>rows\<close>
  field, which holds its own children segmented into rows. The siblings that follow it
  do not matter.
\<close>

theorem splitIntoRows_first_group:
  "splitIntoRows gap (Some (GroupN g # rest)) =
     [[GroupN (GroupNode (g_id g) (g_x g) (g_y g) (g_width g) (g_height g) (children g)
                 (splitIntoRows gap (Some (children g))))]]
   \<and> length (splitIntoRows gap (Some (GroupN g # rest))) = 1"
  by (simp add: Let_def with_rows_def)

text \<open>A group of two elements, one below the other, followed by an element and a group.\<close>

theorem splitIntoRows_first_group_witness:
  "splitIntoRows 0
     (Some [GroupN (GroupNode ''g'' 0 0 10 30
                      [Element (rect ''a'' 0 0 10 10), Element (rect ''b'' 0 20 10 10)] []),
            Element (rect ''c'' 20 0 10 10),
            GroupN (GroupNode ''h'' 0 50 10 10 [] [])]) =
   [[GroupN (GroupNode ''g'' 0 0 10 30
               [Element (rect ''a'' 0 0 10 10), Element (rect ''b'' 0 20 10 10)]
               [[Element (rect ''a'' 0 0 10 10)], [Element (rect ''b'' 0 20 10 10)]])]]"
  using splitIntoRows_first_group
    [of 0 "GroupNode ''g'' 0 0 10 30
             [Element (rect ''a'' 0 0 10 10), Element (rect ''b'' 0 20 10 10)] []"
        "[Element (rect ''c'' 20 0 10 10), GroupN (GroupNode ''h'' 0 50 10 10 [] [])]"]
  by (simp add: areInSameRow_def Let_def)

text \<open>
  C6. With threshold 0, the three elements at \<open>y = 0\<close>, \<open>y = 5\<close> and \<open>y = 40\<close>, each
  of height 10, make two rows: the first two together, the third alone. The other
  fields of the elements are arbitrary.
\<close>

theorem splitIntoRows_three_elements:
  "splitIntoRows 0
     (Some [Element \<lparr>el_id = i0, el_type = t0, el_frameId = f0,
                     el_x = x0, el_y = 0, el_width = w0, el_height = 10\<rparr>,
            Element \<lparr>el_id = i1, el_type = t1, el_frameId = f1,
                     el_x = x1, el_y = 5, el_width = w1, el_height = 10\<rparr>,
            Element \<lparr>el_id = i2, el_type = t2, el_frameId = f2,
                     el_x = x2, el_y = 40, el_width = w2, el_height = 10\<rparr>]) =
   [[Element \<lparr>el_id = i0, el_type = t0, el_frameId = f0,
               el_x = x0, el_y = 0, el_width = w0, el_height = 10\<rparr>,
     Element \<lparr>el_id = i1, el_type = t1, el_frameId = f1,
               el_x = x1, el_y = 5, el_width = w1, el_height = 10\<rparr>],
    [Element \<lparr>el_id = i2, el_type = t2, el_frameId = f2,
               el_x = x2, el_y = 40, el_width = w2, el_height = 10\<rparr>]]"
  by (simp add: areInSameRow_def Let_def)

lemma splitIntoRows_loop_no_empty_row:
  "currentRow \<noteq> [] \<Longrightarrow> [] \<notin> set result \<Longrightarrow>
   [] \<notin> set (splitIntoRows_loop gap nodes result currentRow previousElement)"
proof (induction nodes arbitrary: result currentRow previousElement)
  case Nil
  then show ?case by simp
next
  case (Cons child rest)
  show ?case
  proof (cases child)
    case (Element e)
    then show ?thesis using Cons.prems by (simp add: Cons.IH)
  next
    case (GroupN g)
    then show ?thesis using Cons.prems by (simp add: Let_def Cons.IH)
  qed
qed

text \<open>
  C10. For a non-empty input, no row of the result of \<^verbatim>\<open>splitIntoRows\<close> is empty.
\<close>

theorem splitIntoRows_rows_nonempty:
  "nodes \<noteq> [] \<Longrightarrow> \<forall>row \<in> set (splitIntoRows gap (Some nodes)). row \<noteq> []"
proof (cases nodes)
  case Nil
  then show ?thesis by simp
next
  case (Cons first rest)
  have "[] \<notin> set (splitIntoRows gap (Some nodes))"
  proof (cases first)
    case (Element e)
    then show ?thesis using Cons by (simp add: splitIntoRows_loop_no_empty_row)
  next
    case (GroupN g)
    then show ?thesis using Cons by (simp add: Let_def)
  qed
  then show ?thesis by blast
qed

theorem splitIntoRows_rows_nonempty_witness:
  "[Element (rect ''a'' 0 0 10 10), Element (rect ''b'' 0 20 10 10)] \<noteq> []
   \<and> [] \<notin> set (splitIntoRows 0
          (Some [Element (rect ''a'' 0 0 10 10), Element (rect ''b'' 0 20 10 10)]))"
  using splitIntoRows_rows_nonempty
    [of "[Element (rect ''a'' 0 0 10 10), Element (rect ''b'' 0 20 10 10)]" 0]
  by blast

section \<open>Empty inputs of the bounding boxes\<close>

text \<open>
  C4, as the claim states it, fails for the empty row: \<^verbatim>\<open>!row\<close> is false of an empty
  array, so the loop runs over nothing and the infinities come back, not the zero box.
\<close>

theorem computeRowBoundingBox_empty_row_not_zero:
  "computeRowBoundingBox (Some []) \<noteq>
     \<lparr>minX = Finite 0, minY = Finite 0, maxX = Finite 0, maxY = Finite 0\<rparr>"
  by simp

text \<open>
  C4, amended. \<^verbatim>\<open>computeGroupNodeBoundingBox\<close> on a group without children returns the
  infinities; \<^verbatim>\<open>computeRowBoundingBox\<close> returns the zero box for a \<^verbatim>\<open>null\<close> row, and the
  infinities for an empty row.
\<close>

theorem empty_input_sentinels:
  "computeGroupNodeBoundingBox (GroupNode i x y w h [] r) =
     \<lparr>minX = Infinity, minY = Infinity, maxX = NegInfinity, maxY = NegInfinity\<rparr>
   \<and> computeRowBoundingBox None =
     \<lparr>minX = Finite 0, minY = Finite 0, maxX = Finite 0, maxY = Finite 0\<rparr>
   \<and> computeRowBoundingBox (Some []) =
     \<lparr>minX = Infinity, minY = Infinity, maxX = NegInfinity, maxY = NegInfinity\<rparr>"
  by simp

section \<open>Frame padding\<close>

text \<open>A value \<open>m / 2 ^ k\<close> with \<open>\<bar>m\<bar> < 2 ^ 53\<close> is a binary64 value and rounds to
  itself; a value between two powers of two rounds on the grid of that binade.\<close>

lemma round_half_even_of_int [simp]: "round_half_even (of_int n) = n"
  by (simp add: round_half_even_def)

lemma floor_log2_eq:
  assumes "2 powi E \<le> \<bar>x\<bar>" "\<bar>x\<bar> < 2 powi (E + 1)"
  shows "\<lfloor>log 2 \<bar>x\<bar>\<rfloor> = E"
proof -
  have "(0::real) < 2 powi E" by simp
  then have pos: "0 < \<bar>x\<bar>" using assms(1) by linarith
  have e1: "(2::real) powr real_of_int E = 2 powi E"
    by (rule powr_real_of_int') simp_all
  have e2: "(2::real) powr real_of_int (E + 1) = 2 powi (E + 1)"
    by (rule powr_real_of_int') simp_all
  have "(2::real) powr real_of_int E \<le> \<bar>x\<bar> \<and> \<bar>x\<bar> < 2 powr real_of_int (E + 1)"
    unfolding e1 e2 using assms by blast
  then show ?thesis
    by (rule iffD2[OF floor_log_eq_powr_iff[OF pos], rotated]) simp
qed

lemma to_double_normal:
  assumes "2 powi E \<le> \<bar>x\<bar>" "\<bar>x\<bar> < 2 powi (E + 1)" "- 1022 \<le> E"
  shows "to_double x =
     (let r = of_int (round_half_even (x / 2 powi (E - 52))) * 2 powi (E - 52)
      in if 2 ^ 1024 \<le> r then Infinity
         else if r \<le> - (2 ^ 1024) then NegInfinity
         else Finite r)"
proof -
  have "(0::real) < 2 powi E" by simp
  then have "0 < \<bar>x\<bar>" using assms(1) by linarith
  then have "x \<noteq> 0" by simp
  moreover have "ulp_exponent x = E - 52"
    using floor_log2_eq[OF assms(1,2)] assms(3) by (simp add: ulp_exponent_def)
  ultimately show ?thesis unfolding to_double_def Let_def by (simp only: if_False)
qed

lemma to_double_dyadic:
  assumes "\<bar>m\<bar> < 2 ^ 53" "k \<le> 1074"
  shows "to_double (of_int m / 2 ^ k) = Finite (of_int m / 2 ^ k)"
proof (cases "m = 0")
  case True
  then show ?thesis by (simp add: to_double_def)
next
  case False
  define x :: real where "x = of_int m / 2 ^ k"
  have x0: "x \<noteq> 0" using False by (simp add: x_def)
  define E where "E = \<lfloor>log 2 \<bar>x\<bar>\<rfloor>"
  have absx: "\<bar>x\<bar> = of_int \<bar>m\<bar> / 2 ^ k" by (simp add: x_def)
  have m53: "real_of_int \<bar>m\<bar> < 2 ^ 53"
    using assms(1) by (simp add: of_int_less_numeral_power_cancel_iff)
  have "\<bar>x\<bar> < 2 ^ 53 / 2 ^ k"
    unfolding absx using m53 by (intro divide_strict_right_mono) simp_all
  also have "\<dots> = 2 powi (53 - int k)"
    by (simp add: power_int_diff)
  finally have up: "\<bar>x\<bar> < 2 powi (53 - int k)" .
  have "E < 53 - int k"
  proof (rule ccontr)
    assume "\<not> E < 53 - int k"
    then have "53 - int k \<le> E" by simp
    then have "real_of_int (53 - int k) \<le> log 2 \<bar>x\<bar>"
      unfolding E_def by linarith
    then have "2 powr real_of_int (53 - int k) \<le> \<bar>x\<bar>"
      using x0 by (subst le_log_iff[symmetric]) simp_all
    moreover have "(2::real) powr real_of_int (53 - int k) = 2 powi (53 - int k)"
      by (rule powr_real_of_int') simp_all
    ultimately have "2 powi (53 - int k) \<le> \<bar>x\<bar>"
      by (simp only:)
    then show False using up by simp
  qed
  define q where "q = ulp_exponent x"
  have q: "q \<le> - int k"
    using \<open>E < 53 - int k\<close> assms(2) by (simp add: q_def ulp_exponent_def E_def)
  define d where "d = nat (- int k - q)"
  have d: "int d = - int k - q" using q by (simp add: d_def)
  have pk: "(2::real) ^ k = 2 powi (int k)" by simp
  have "x / 2 powi q = of_int m * (2 powi (- int k) / 2 powi q)"
    by (simp add: x_def power_int_minus field_simps)
  also have "2 powi (- int k) / 2 powi q = (2::real) powi (- int k - q)"
    by (simp add: power_int_diff)
  also have "\<dots> = 2 powi (int d)"
    using d by simp
  also have "\<dots> = 2 ^ d"
    by (rule power_int_of_nat)
  finally have xq: "x / 2 powi q = of_int (m * 2 ^ d)" by simp
  have "real_of_int (round_half_even (x / 2 powi q)) = x / 2 powi q"
    unfolding xq by (simp only: round_half_even_of_int)
  then have "of_int (round_half_even (x / 2 powi q)) * 2 powi q = x / 2 powi q * 2 powi q"
    by simp
  also have "\<dots> = x" by simp
  finally have r: "of_int (round_half_even (x / 2 powi q)) * 2 powi q = x" .
  have "\<bar>x\<bar> < 2 ^ 53"
  proof -
    have "(1::real) \<le> 2 ^ k" by simp
    then have "real_of_int \<bar>m\<bar> / 2 ^ k \<le> real_of_int \<bar>m\<bar>"
      by (simp add: divide_le_eq mult_le_cancel_left1)
    then show ?thesis unfolding absx using m53 by linarith
  qed
  moreover have "(2::real) ^ 53 \<le> 2 ^ 1024"
    by (rule power_increasing) simp_all
  ultimately have "\<bar>x\<bar> < 2 ^ 1024" by linarith
  then have "\<not> 2 ^ 1024 \<le> x" "\<not> x \<le> - (2 ^ 1024)" by linarith+
  then show ?thesis
    unfolding x_def[symmetric] to_double_def Let_def q_def[symmetric] r
    using x0 by (simp only: if_False)
qed

lemma to_double_int:
  "\<bar>m\<bar> < 2 ^ 53 \<Longrightarrow> to_double (of_int m) = Finite (of_int m)"
  using to_double_dyadic[of m 0] by simp

lemma to_double_numeral [simp]:
  "numeral n < (2::int) ^ 53 \<Longrightarrow> to_double (numeral n) = Finite (numeral n)"
  using to_double_int[of "numeral n"] by simp

lemma to_double_0 [simp]: "to_double 0 = Finite 0"
  by (simp add: to_double_def)

lemma js_pow10_2 [simp]: "js_pow10 2 = Number (Finite 100)"
  by (simp add: js_pow10_def)


lemma to_double_1 [simp]: "to_double 1 = Finite 1"
  using to_double_int[of 1] by simp

lemma roundOffToDecimals_two_decimals: "two_decimals (roundOffToDecimals v 2)"
proof (cases v)
  case NaN
  then show ?thesis by (simp add: roundOffToDecimals_def two_decimals_def)
next
  case (Number a)
  show ?thesis
  proof (cases a)
    case NegInfinity
    then show ?thesis using Number by (simp add: roundOffToDecimals_def two_decimals_def)
  next
    case Infinity
    then show ?thesis using Number by (simp add: roundOffToDecimals_def two_decimals_def)
  next
    case (Finite x)
    show ?thesis
    proof (cases "to_double (x * 100)")
      case NegInfinity
      then show ?thesis
        using Number Finite by (simp add: roundOffToDecimals_def two_decimals_def)
    next
      case Infinity
      then show ?thesis
        using Number Finite by (simp add: roundOffToDecimals_def two_decimals_def)
    next
      case (Finite t)
      then have "roundOffToDecimals v 2 = Number (to_double (of_int \<lfloor>t + 1 / 2\<rfloor> / 100))"
        using Number \<open>a = Finite x\<close> by (simp add: roundOffToDecimals_def)
      then show ?thesis unfolding two_decimals_def by blast
    qed
  qed
qed

lemma roundOffToDecimals_finite:
  "to_double (x * 100) = Finite t \<Longrightarrow>
   roundOffToDecimals (Number (Finite x)) 2 = Number (to_double (of_int \<lfloor>t + 1 / 2\<rfloor> / 100))"
  by (simp add: roundOffToDecimals_def)

text \<open>The binary64 values of 0.015 and 1.005: the product \<open>0.015 * 100\<close> rounds up to
  the tie 1.5, which \<^verbatim>\<open>Math.round\<close> takes to 2; \<open>1.005 * 100\<close> is below 100.5. A
  product that overflows gives \<^verbatim>\<open>Infinity\<close>.\<close>

lemma roundOffToDecimals_0_015:
  "roundOffToDecimals (Number (Finite (8646911284551352 / 2 ^ 59))) 2 =
     Number (Finite (5764607523034235 / 2 ^ 58))"
proof -
  have a: "to_double (8646911284551352 / 2 ^ 59 * 100) = Finite (3 / 2)"
    using to_double_normal[of 0 "8646911284551352 / 2 ^ 59 * 100"]
    by (simp add: round_half_even_def Let_def)
  have b: "to_double (2 / 100) = Finite (5764607523034235 / 2 ^ 58)"
    using to_double_normal[of "- 6" "2 / 100"]
    by (simp add: round_half_even_def Let_def)
  show ?thesis
    using roundOffToDecimals_finite[OF a] b by simp
qed

lemma roundOffToDecimals_1_005:
  "roundOffToDecimals (Number (Finite (4526117625507348 / 2 ^ 52))) 2 = Number (Finite 1)"
proof -
  have a: "to_double (4526117625507348 / 2 ^ 52 * 100) = Finite (7072058789855231 / 2 ^ 46)"
    using to_double_normal[of 6 "4526117625507348 / 2 ^ 52 * 100"]
    by (simp add: round_half_even_def Let_def)
  show ?thesis
    using roundOffToDecimals_finite[OF a] by simp
qed

lemma roundOffToDecimals_overflow:
  "roundOffToDecimals (Number (Finite (2 ^ 1020))) 2 = Number Infinity"
proof -
  have "to_double (2 ^ 1020 * 100) = Infinity"
    using to_double_normal[of 1026 "2 ^ 1020 * 100"]
    by (simp add: round_half_even_def Let_def)
  then show ?thesis by (simp add: roundOffToDecimals_def)
qed

lemma Min_insert_min:
  fixes a b :: "'a::linorder"
  assumes "finite A"
  shows "Min (insert (min a b) A) = Min (insert a (insert b A))"
proof (cases "A = {}")
  case True
  then show ?thesis by simp
next
  case False
  then show ?thesis using assms by (simp add: min.assoc)
qed

lemma Max_insert_max:
  fixes a b :: "'a::linorder"
  assumes "finite A"
  shows "Max (insert (max a b) A) = Max (insert a (insert b A))"
proof (cases "A = {}")
  case True
  then show ?thesis by simp
next
  case False
  then show ?thesis using assms by (simp add: max.assoc)
qed

lemma computeFrameNodeBoundingBox_loop_bounds:
  "minX (computeFrameNodeBoundingBox_loop es bb) =
     Min (insert (minX bb) ((\<lambda>e. Finite (el_x e)) ` set es))
   \<and> minY (computeFrameNodeBoundingBox_loop es bb) =
     Min (insert (minY bb) ((\<lambda>e. Finite (el_y e)) ` set es))
   \<and> maxX (computeFrameNodeBoundingBox_loop es bb) =
     Max (insert (maxX bb) ((\<lambda>e. to_double (el_x e + el_width e)) ` set es))
   \<and> maxY (computeFrameNodeBoundingBox_loop es bb) =
     Max (insert (maxY bb) ((\<lambda>e. to_double (el_y e + el_height e)) ` set es))"
proof (induction es arbitrary: bb)
  case Nil
  then show ?case by simp
next
  case (Cons e es)
  show ?case
    by (simp add: Cons.IH Min_insert_min Max_insert_max del: Min_insert Max_insert)
qed

lemma Min_Finite_image:
  assumes "finite A" "A \<noteq> {}"
  shows "Min (insert Infinity (Finite ` A)) = Finite (Min A)"
proof -
  have mono: "mono Finite" by (rule monoI) simp
  have "Min (insert Infinity (Finite ` A)) = min Infinity (Min (Finite ` A))"
    using assms by simp
  also have "\<dots> = Min (Finite ` A)"
    by (cases "Min (Finite ` A)") (simp_all add: min_def)
  also have "\<dots> = Finite (Min A)"
    using mono_Min_commute[OF mono assms] by simp
  finally show ?thesis .
qed

lemma Max_insert_NegInfinity:
  assumes "finite B" "B \<noteq> {}"
  shows "Max (insert NegInfinity B) = Max B"
proof -
  have "Max (insert NegInfinity B) = max NegInfinity (Max B)"
    using assms by simp
  also have "\<dots> = Max B"
    by (cases "Max B") (simp_all add: max_def)
  finally show ?thesis .
qed

lemma computeFrameNodeBoundingBox_owned:
  assumes "owned = filter (\<lambda>element. el_frameId element = Some (el_id frame)) elements"
    and "owned \<noteq> []"
  shows "computeFrameNodeBoundingBox frame elements =
     \<lparr>minX = Finite (Min (el_x ` set owned)),
      minY = Finite (Min (el_y ` set owned)),
      maxX = Max ((\<lambda>e. to_double (el_x e + el_width e)) ` set owned),
      maxY = Max ((\<lambda>e. to_double (el_y e + el_height e)) ` set owned)\<rparr>"
proof -
  let ?bb = "computeFrameNodeBoundingBox frame elements"
  have ne: "set owned \<noteq> {}" using assms(2) by simp
  have loop: "?bb = computeFrameNodeBoundingBox_loop owned
      \<lparr>minX = Infinity, minY = Infinity, maxX = NegInfinity, maxY = NegInfinity\<rparr>"
    by (simp add: computeFrameNodeBoundingBox_def assms(1))
  have "minX ?bb = Finite (Min (el_x ` set owned))"
    unfolding loop
    using computeFrameNodeBoundingBox_loop_bounds Min_Finite_image[of "el_x ` set owned"] ne
    by (simp add: image_image del: Min_insert)
  moreover have "minY ?bb = Finite (Min (el_y ` set owned))"
    unfolding loop
    using computeFrameNodeBoundingBox_loop_bounds Min_Finite_image[of "el_y ` set owned"] ne
    by (simp add: image_image del: Min_insert)
  moreover have "maxX ?bb = Max ((\<lambda>e. to_double (el_x e + el_width e)) ` set owned)"
    unfolding loop
    using computeFrameNodeBoundingBox_loop_bounds
      Max_insert_NegInfinity[of "(\<lambda>e. to_double (el_x e + el_width e)) ` set owned"] ne
    by (simp del: Max_insert)
  moreover have "maxY ?bb = Max ((\<lambda>e. to_double (el_y e + el_height e)) ` set owned)"
    unfolding loop
    using computeFrameNodeBoundingBox_loop_bounds
      Max_insert_NegInfinity[of "(\<lambda>e. to_double (el_y e + el_height e)) ` set owned"] ne
    by (simp del: Max_insert)
  ultimately show ?thesis by (cases ?bb) simp
qed

lemma computeFramePadding_box:
  "computeFramePadding frame elements =
     (let owned = filter (\<lambda>element. el_frameId element = Some (el_id frame)) elements;
          boxMinX = (if owned = [] then Infinity else Finite (Min (el_x ` set owned)));
          boxMinY = (if owned = [] then Infinity else Finite (Min (el_y ` set owned)));
          boxMaxX = (if owned = [] then NegInfinity
                     else Max ((\<lambda>e. to_double (el_x e + el_width e)) ` set owned));
          boxMaxY = (if owned = [] then NegInfinity
                     else Max ((\<lambda>e. to_double (el_y e + el_height e)) ` set owned))
      in \<lparr>pad_left = roundOffToDecimals
              (js_sub (Number boxMinX) (Number (Finite (el_x frame)))) 2,
            pad_top = roundOffToDecimals
              (js_sub (Number boxMinY) (Number (Finite (el_y frame)))) 2,
            pad_right = roundOffToDecimals
              (js_sub (Number (to_double (el_x frame + el_width frame))) (Number boxMaxX)) 2,
            pad_bottom = roundOffToDecimals
              (js_sub (Number (to_double (el_y frame + el_height frame))) (Number boxMaxY)) 2\<rparr>)"
proof -
  define owned where "owned = filter (\<lambda>element. el_frameId element = Some (el_id frame)) elements"
  show ?thesis
  proof (cases "owned = []")
    case True
    then show ?thesis
      unfolding owned_def
      by (simp add: computeFramePadding_def computeFrameNodeBoundingBox_def Let_def)
  next
    case False
    then show ?thesis
      using computeFrameNodeBoundingBox_owned[OF owned_def False]
      unfolding owned_def by (simp add: computeFramePadding_def Let_def)
  qed
qed

lemma computeFramePadding_example:
  "computeFramePadding (frame_el ''f'' 0 0 100 100) [rect_in ''f'' ''c'' 10 10 30 30] =
     \<lparr>pad_left = Number (Finite 10), pad_top = Number (Finite 10),
      pad_right = Number (Finite 60), pad_bottom = Number (Finite 60)\<rparr>"
  by (simp add: computeFramePadding_def computeFrameNodeBoundingBox_def roundOffToDecimals_def
      min_def max_def)

lemma computeFramePadding_fraction:
  "computeFramePadding (frame_el ''f'' 0 0 100 100)
     [rect_in ''f'' ''c'' (2623 / 256) (5 / 4) 30 30, rect ''d'' 1 1 1 1] =
     \<lparr>pad_left = Number (Finite (41 / 4)), pad_top = Number (Finite (5 / 4)),
      pad_right = Number (Finite (239 / 4)), pad_bottom = Number (Finite (275 / 4))\<rparr>"
  using to_double_dyadic[of 2623 8] to_double_dyadic[of 65575 6] to_double_dyadic[of 41 2]
    to_double_dyadic[of 5 2] to_double_dyadic[of 10303 8] to_double_dyadic[of 15297 8]
    to_double_dyadic[of 382425 6] to_double_dyadic[of 239 2] to_double_dyadic[of 125 2]
    to_double_dyadic[of 275 2]
  by (simp add: computeFramePadding_def computeFrameNodeBoundingBox_def roundOffToDecimals_def
      min_def max_def)

lemma computeFramePadding_binary64:
  "computeFramePadding (frame_el ''f'' 0 0 100 100)
     [rect_in ''f'' ''c'' (8646911284551352 / 2 ^ 59) (4526117625507348 / 2 ^ 52) 1 1,
      rect_in ''f'' ''d'' 50 50 20 20] =
     \<lparr>pad_left = Number (Finite (5764607523034235 / 2 ^ 58)), pad_top = Number (Finite 1),
      pad_right = Number (Finite 30), pad_bottom = Number (Finite 30)\<rparr>"
proof -
  have x: "to_double (8646911284551352 / 2 ^ 59) = Finite (8646911284551352 / 2 ^ 59)"
    using to_double_dyadic[of 8646911284551352 59] by simp
  have y: "to_double (4526117625507348 / 2 ^ 52) = Finite (4526117625507348 / 2 ^ 52)"
    using to_double_dyadic[of 4526117625507348 52] by simp
  have xw: "to_double (8646911284551352 / 2 ^ 59 + 1) = Finite (4571153621781053 / 2 ^ 52)"
    using to_double_normal[of 0 "8646911284551352 / 2 ^ 59 + 1"]
    by (simp add: round_half_even_def Let_def)
  have yh: "to_double (4526117625507348 / 2 ^ 52 + 1) = Finite (4514858626438922 / 2 ^ 51)"
    using to_double_dyadic[of 4514858626438922 51] by simp
  have bb: "computeFrameNodeBoundingBox (frame_el ''f'' 0 0 100 100)
     [rect_in ''f'' ''c'' (8646911284551352 / 2 ^ 59) (4526117625507348 / 2 ^ 52) 1 1,
      rect_in ''f'' ''d'' 50 50 20 20] =
     \<lparr>minX = Finite (8646911284551352 / 2 ^ 59), minY = Finite (4526117625507348 / 2 ^ 52),
      maxX = Finite 70, maxY = Finite 70\<rparr>"
    using xw yh by (simp add: computeFrameNodeBoundingBox_def min_def max_def)
  show ?thesis
    using x y roundOffToDecimals_0_015 roundOffToDecimals_1_005 bb
    by (simp add: computeFramePadding_def roundOffToDecimals_def[of "Number (Finite 30)"])
qed

text \<open>
  C7. \<^verbatim>\<open>computeFramePadding\<close> returns, on each side, the distance from the edge of the
  frame to the same edge of the box around the elements whose \<open>frameId\<close> is the frame's
  id, rounded by \<^verbatim>\<open>roundOffToDecimals\<close> to 2 decimals. The left and top edges of the box
  are the least \<open>x\<close> and \<open>y\<close> of these elements, its right and bottom edges the
  greatest \<open>x + width\<close> and \<open>y + height\<close>, and the box of no element is the
  infinities. Every side is a value with two decimals. For the frame at (0, 0) of size
  100 by 100 with the one child at (10, 10) of size 30 by 30 the padding is 10, 10, 60,
  60; a child at (10.24609375, 1.25) gives 10.25, 1.25, 59.75, 68.75; a child at the
  binary64 values of (0.015, 1.005) gives the binary64 value of 0.02 on the left and 1 on
  top.
\<close>

theorem computeFramePadding_distances:
  "computeFramePadding frame elements =
     (let owned = filter (\<lambda>element. el_frameId element = Some (el_id frame)) elements;
          boxMinX = (if owned = [] then Infinity else Finite (Min (el_x ` set owned)));
          boxMinY = (if owned = [] then Infinity else Finite (Min (el_y ` set owned)));
          boxMaxX = (if owned = [] then NegInfinity
                     else Max ((\<lambda>e. to_double (el_x e + el_width e)) ` set owned));
          boxMaxY = (if owned = [] then NegInfinity
                     else Max ((\<lambda>e. to_double (el_y e + el_height e)) ` set owned))
      in \<lparr>pad_left = roundOffToDecimals
              (js_sub (Number boxMinX) (Number (Finite (el_x frame)))) 2,
            pad_top = roundOffToDecimals
              (js_sub (Number boxMinY) (Number (Finite (el_y frame)))) 2,
            pad_right = roundOffToDecimals
              (js_sub (Number (to_double (el_x frame + el_width frame))) (Number boxMaxX)) 2,
            pad_bottom = roundOffToDecimals
              (js_sub (Number (to_double (el_y frame + el_height frame))) (Number boxMaxY)) 2\<rparr>)
   \<and> two_decimals (pad_left (computeFramePadding frame elements))
   \<and> two_decimals (pad_top (computeFramePadding frame elements))
   \<and> two_decimals (pad_right (computeFramePadding frame elements))
   \<and> two_decimals (pad_bottom (computeFramePadding frame elements))
   \<and> computeFramePadding (frame_el ''f'' 0 0 100 100) [rect_in ''f'' ''c'' 10 10 30 30] =
       \<lparr>pad_left = Number (Finite 10), pad_top = Number (Finite 10),
        pad_right = Number (Finite 60), pad_bottom = Number (Finite 60)\<rparr>
   \<and> computeFramePadding (frame_el ''f'' 0 0 100 100)
       [rect_in ''f'' ''c'' (2623 / 256) (5 / 4) 30 30, rect ''d'' 1 1 1 1] =
       \<lparr>pad_left = Number (Finite (41 / 4)), pad_top = Number (Finite (5 / 4)),
        pad_right = Number (Finite (239 / 4)), pad_bottom = Number (Finite (275 / 4))\<rparr>
   \<and> computeFramePadding (frame_el ''f'' 0 0 100 100)
       [rect_in ''f'' ''c'' (8646911284551352 / 2 ^ 59) (4526117625507348 / 2 ^ 52) 1 1,
        rect_in ''f'' ''d'' 50 50 20 20] =
       \<lparr>pad_left = Number (Finite (5764607523034235 / 2 ^ 58)), pad_top = Number (Finite 1),
        pad_right = Number (Finite 30), pad_bottom = Number (Finite 30)\<rparr>"
proof -
  have "two_decimals (pad_left (computeFramePadding frame elements))"
    "two_decimals (pad_top (computeFramePadding frame elements))"
    "two_decimals (pad_right (computeFramePadding frame elements))"
    "two_decimals (pad_bottom (computeFramePadding frame elements))"
    by (simp_all add: computeFramePadding_def Let_def roundOffToDecimals_two_decimals)
  then show ?thesis
    using computeFramePadding_box[of frame elements] computeFramePadding_example
      computeFramePadding_fraction computeFramePadding_binary64
    by (simp only: simp_thms)
qed

section \<open>Formatting failures\<close>

text \<open>
  C8. \<^verbatim>\<open>formatCode\<close> never fails: its promise always resolves to a text, the formatted
  text when the formatter succeeds and the input itself when the formatter fails.
\<close>

theorem formatCode_never_fails:
  "(\<exists>text. fst (formatCode format code) = Inr text)
   \<and> (\<forall>formatted. format code = Inr formatted \<longrightarrow> fst (formatCode format code) = Inr formatted)
   \<and> (\<forall>error. format code = Inl error \<longrightarrow> fst (formatCode format code) = Inr code)"
  by (cases "format code") (simp_all add: formatCode_def)

text \<open>A formatter that accepts one text and rejects every other, on both.\<close>

theorem formatCode_never_fails_witness:
  "(\<lambda>c. if c = ''x=1'' then Inr ''x = 1;'' else Inl ''SyntaxError'') ''x=1'' = Inr ''x = 1;''
   \<and> fst (formatCode (\<lambda>c. if c = ''x=1'' then Inr ''x = 1;'' else Inl ''SyntaxError'') ''x=1'')
       = Inr ''x = 1;''
   \<and> (\<lambda>c. if c = ''x=1'' then Inr ''x = 1;'' else Inl ''SyntaxError'') ''x=('' = Inl ''SyntaxError''
   \<and> fst (formatCode (\<lambda>c. if c = ''x=1'' then Inr ''x = 1;'' else Inl ''SyntaxError'') ''x=('')
       = Inr ''x=(''"
  using formatCode_never_fails
    [of "\<lambda>c. if c = ''x=1'' then Inr ''x = 1;'' else Inl ''SyntaxError''" "''x=1''"]
    formatCode_never_fails
    [of "\<lambda>c. if c = ''x=1'' then Inr ''x = 1;'' else Inl ''SyntaxError''" "''x=(''"]
  by simp

section \<open>The box of a group\<close>

lemma min_Infinity [simp]: "min x Infinity = x" "min Infinity x = x"
  by (cases x; simp add: min_def)+

lemma max_NegInfinity [simp]: "max x NegInfinity = x" "max NegInfinity x = x"
  by (cases x; simp add: max_def)+

lemma box_union_sel [simp]:
  "minX (box_union a b) = min (minX a) (minX b)"
  "minY (box_union a b) = min (minY a) (minY b)"
  "maxX (box_union a b) = max (maxX a) (maxX b)"
  "maxY (box_union a b) = max (maxY a) (maxY b)"
  by (simp_all add: box_union_def)

lemma box_union_empty_box [simp]: "box_union bb empty_box = bb"
  by (simp add: box_union_def empty_box_def)

lemma box_union_assoc: "box_union (box_union a b) c = box_union a (box_union b c)"
  by (simp add: box_union_def min.assoc max.assoc)

lemma computeGroupNodeBoundingBox_loop_union:
  "computeGroupNodeBoundingBox_loop nodes bb =
     box_union bb (foldr box_union (map own_box nodes) empty_box)"
proof (induction nodes arbitrary: bb)
  case Nil
  then show ?case by simp
next
  case (Cons child rest)
  show ?case
  proof (cases child)
    case (Element e)
    have "computeGroupNodeBoundingBox_loop (child # rest) bb =
            computeGroupNodeBoundingBox_loop rest (box_union bb (own_box child))"
      using Element by (simp add: box_union_def)
    then show ?thesis by (simp add: Cons.IH box_union_assoc)
  next
    case (GroupN g)
    have "computeGroupNodeBoundingBox_loop (child # rest) bb =
            computeGroupNodeBoundingBox_loop rest (box_union bb (own_box child))"
      using GroupN by (simp add: box_union_def Let_def)
    then show ?thesis by (simp add: Cons.IH box_union_assoc)
  qed
qed

lemma computeGroupNodeBoundingBox_as_union:
  "computeGroupNodeBoundingBox g = foldr box_union (map own_box (children g)) empty_box"
proof -
  have "computeGroupNodeBoundingBox g = computeGroupNodeBoundingBox_loop (children g) empty_box"
    by (simp add: empty_box_def)
  also have "\<dots> = box_union empty_box (foldr box_union (map own_box (children g)) empty_box)"
    by (rule computeGroupNodeBoundingBox_loop_union)
  also have "\<dots> = foldr box_union (map own_box (children g)) empty_box"
    by (simp add: box_union_def empty_box_def)
  finally show ?thesis .
qed

text \<open>The union of a list of boxes covers each of them.\<close>

lemma covers_union_list:
  "b \<in> set bs \<Longrightarrow> covers (foldr box_union bs empty_box) b"
proof (induction bs)
  case Nil
  then show ?case by simp
next
  case (Cons a bs)
  show ?case
  proof (cases "b = a")
    case True
    then show ?thesis by (simp add: covers_def)
  next
    case False
    with Cons have "covers (foldr box_union bs empty_box) b" by simp
    then show ?thesis
      by (simp add: covers_def min.coboundedI2 max.coboundedI2)
  qed
qed

lemma covers_trans: "covers a b \<Longrightarrow> covers b c \<Longrightarrow> covers a c"
  by (auto simp: covers_def)

lemma covers_elements:
  "e \<in> set (elements_of n) \<Longrightarrow> covers (own_box n) (own_box (Element e))"
  "e \<in> set (elements_of_group g) \<Longrightarrow> covers (computeGroupNodeBoundingBox g) (own_box (Element e))"
proof (induction n and g)
  case (Element e')
  then show ?case by (simp add: covers_def)
next
  case (GroupN g)
  then show ?case by simp
next
  case (GroupNode i x y w h cs r)
  from GroupNode.prems obtain c where c: "c \<in> set cs" "e \<in> set (elements_of c)"
    by auto
  then have "covers (own_box c) (own_box (Element e))"
    using GroupNode.IH(1) by blast
  moreover have "covers (computeGroupNodeBoundingBox (GroupNode i x y w h cs r)) (own_box c)"
    unfolding computeGroupNodeBoundingBox_as_union using c(1)
    by (simp add: covers_union_list)
  ultimately show ?case by (rule covers_trans[rotated])
qed

text \<open>
  C5, as the claim states it, fails: a sequence that holds only a group without children
  is not empty, and its box is the infinities, with \<open>minX\<close> above \<open>maxX\<close>.
\<close>

theorem computeGroupNodeBoundingBox_empty_group_child:
  "[GroupN (GroupNode ''h'' 0 0 0 0 [] [])] \<noteq> []
   \<and> 0 \<le> node_width (GroupN (GroupNode ''h'' 0 0 0 0 [] []))
   \<and> 0 \<le> node_height (GroupN (GroupNode ''h'' 0 0 0 0 [] []))
   \<and> \<not> minX (computeGroupNodeBoundingBox
            (GroupNode ''g'' 0 0 0 0 [GroupN (GroupNode ''h'' 0 0 0 0 [] [])] []))
        \<le> maxX (computeGroupNodeBoundingBox
            (GroupNode ''g'' 0 0 0 0 [GroupN (GroupNode ''h'' 0 0 0 0 [] [])] []))"
  by (simp add: min_def max_def)

text \<open>
  C5, amended. The box that \<^verbatim>\<open>computeGroupNodeBoundingBox\<close> computes is the union
  (componentwise minimum and maximum) of the own boxes of the children, a child that is
  a group giving its recomputed box and not its stored position and size. When the tree
  holds at least one element, at any depth, and every element of the tree has width and
  height at least 0, then \<open>minX \<le> maxX\<close> and \<open>minY \<le> maxY\<close>.
\<close>

theorem computeGroupNodeBoundingBox_union:
  "computeGroupNodeBoundingBox g = foldr box_union (map own_box (children g)) empty_box
   \<and> (elements_of_group g \<noteq> [] \<and>
        (\<forall>e \<in> set (elements_of_group g). 0 \<le> el_width e \<and> 0 \<le> el_height e)
      \<longrightarrow> minX (computeGroupNodeBoundingBox g) \<le> maxX (computeGroupNodeBoundingBox g)
          \<and> minY (computeGroupNodeBoundingBox g) \<le> maxY (computeGroupNodeBoundingBox g))"
proof (intro conjI impI)
  show "computeGroupNodeBoundingBox g = foldr box_union (map own_box (children g)) empty_box"
    by (rule computeGroupNodeBoundingBox_as_union)
next
  assume a: "elements_of_group g \<noteq> [] \<and>
        (\<forall>e \<in> set (elements_of_group g). 0 \<le> el_width e \<and> 0 \<le> el_height e)"
  then obtain e where e: "e \<in> set (elements_of_group g)" "0 \<le> el_width e" "0 \<le> el_height e"
    by (cases "elements_of_group g") auto
  have c: "covers (computeGroupNodeBoundingBox g) (own_box (Element e))"
    using e(1) by (rule covers_elements(2))
  have "minX (computeGroupNodeBoundingBox g) \<le> Finite (el_x e)"
    using c by (simp add: covers_def)
  also have "Finite (el_x e) \<le> Finite (el_x e + el_width e)"
    using e(2) by simp
  also have "\<dots> \<le> maxX (computeGroupNodeBoundingBox g)"
    using c by (simp add: covers_def)
  finally show "minX (computeGroupNodeBoundingBox g) \<le> maxX (computeGroupNodeBoundingBox g)" .
  have "minY (computeGroupNodeBoundingBox g) \<le> Finite (el_y e)"
    using c by (simp add: covers_def)
  also have "Finite (el_y e) \<le> Finite (el_y e + el_height e)"
    using e(3) by simp
  also have "\<dots> \<le> maxY (computeGroupNodeBoundingBox g)"
    using c by (simp add: covers_def)
  finally show "minY (computeGroupNodeBoundingBox g) \<le> maxY (computeGroupNodeBoundingBox g)" .
qed

text \<open>A group of an element and a nested group: its box is from (1, 2) to (12, 14).\<close>

theorem computeGroupNodeBoundingBox_union_witness:
  "elements_of_group
     (GroupNode ''g'' 0 0 0 0
        [Element (rect ''a'' 1 2 3 4),
         GroupN (GroupNode ''h'' 0 0 0 0 [Element (rect ''b'' 5 6 7 8)] [])] []) \<noteq> []
   \<and> list_all (\<lambda>e. 0 \<le> el_width e \<and> 0 \<le> el_height e)
     (elements_of_group
       (GroupNode ''g'' 0 0 0 0
          [Element (rect ''a'' 1 2 3 4),
           GroupN (GroupNode ''h'' 0 0 0 0 [Element (rect ''b'' 5 6 7 8)] [])] []))
   \<and> computeGroupNodeBoundingBox
     (GroupNode ''g'' 0 0 0 0
        [Element (rect ''a'' 1 2 3 4),
         GroupN (GroupNode ''h'' 0 0 0 0 [Element (rect ''b'' 5 6 7 8)] [])] []) =
     \<lparr>minX = Finite 1, minY = Finite 2, maxX = Finite 12, maxY = Finite 14\<rparr>
   \<and> minX (computeGroupNodeBoundingBox
     (GroupNode ''g'' 0 0 0 0
        [Element (rect ''a'' 1 2 3 4),
         GroupN (GroupNode ''h'' 0 0 0 0 [Element (rect ''b'' 5 6 7 8)] [])] []))
     \<le> maxX (computeGroupNodeBoundingBox
     (GroupNode ''g'' 0 0 0 0
        [Element (rect ''a'' 1 2 3 4),
         GroupN (GroupNode ''h'' 0 0 0 0 [Element (rect ''b'' 5 6 7 8)] [])] []))"
  using computeGroupNodeBoundingBox_union
    [of "GroupNode ''g'' 0 0 0 0
        [Element (rect ''a'' 1 2 3 4),
         GroupN (GroupNode ''h'' 0 0 0 0 [Element (rect ''b'' 5 6 7 8)] [])] []"]
  by (simp add: box_union_def min_def max_def)

section \<open>Groups in rows\<close>

lemma chained_snoc:
  "cur \<noteq> [] \<Longrightarrow> chained gap (cur @ [n]) = (chained gap cur \<and> areInSameRow gap n (last cur))"
  by (induction gap cur rule: chained.induct) auto

lemma separated_last_hd:
  "hd r = hd r' \<Longrightarrow> separated gap (rs @ [r]) = separated gap (rs @ [r'])"
  by (induction gap rs rule: separated.induct) auto

lemma separated_snoc:
  "separated gap (rs @ [r1, r2]) =
     (separated gap (rs @ [r1]) \<and> \<not> areInSameRow gap (hd r2) (last r1))"
  by (induction gap rs rule: separated.induct) auto

lemma splitIntoRows_loop_concat:
  "concat (splitIntoRows_loop gap nodes result currentRow previousElement) =
     concat result @ currentRow @ map (segmented gap) nodes"
proof (induction nodes arbitrary: result currentRow previousElement)
  case Nil
  then show ?case by simp
next
  case (Cons child rest)
  show ?case
  proof (cases child)
    case (Element e)
    then show ?thesis by (simp add: Cons.IH)
  next
    case (GroupN g)
    then show ?thesis by (simp add: Let_def Cons.IH)
  qed
qed

lemma splitIntoRows_loop_step:
  "splitIntoRows_loop gap (child # rest) result currentRow previousElement =
     (if areInSameRow gap (segmented gap child) previousElement
      then splitIntoRows_loop gap rest result (currentRow @ [segmented gap child])
             (segmented gap child)
      else splitIntoRows_loop gap rest (result @ [currentRow]) [segmented gap child]
             (segmented gap child))"
  by (cases child) (simp_all add: Let_def)

lemma splitIntoRows_loop_chained:
  "list_all (chained gap) result \<Longrightarrow> chained gap currentRow \<Longrightarrow> currentRow \<noteq> [] \<Longrightarrow>
   last currentRow = previousElement \<Longrightarrow>
   list_all (chained gap) (splitIntoRows_loop gap nodes result currentRow previousElement)"
proof (induction nodes arbitrary: result currentRow previousElement)
  case Nil
  then show ?case by simp
next
  case (Cons child rest)
  show ?case
  proof (cases "areInSameRow gap (segmented gap child) previousElement")
    case True
    have "list_all (chained gap)
            (splitIntoRows_loop gap rest result (currentRow @ [segmented gap child])
               (segmented gap child))"
      using Cons.prems True by (intro Cons.IH) (simp_all add: chained_snoc)
    then show ?thesis using True by (simp add: splitIntoRows_loop_step)
  next
    case False
    have "list_all (chained gap)
            (splitIntoRows_loop gap rest (result @ [currentRow]) [segmented gap child]
               (segmented gap child))"
      using Cons.prems by (intro Cons.IH) simp_all
    then show ?thesis using False by (simp add: splitIntoRows_loop_step)
  qed
qed

lemma splitIntoRows_loop_separated:
  "separated gap (result @ [currentRow]) \<Longrightarrow> currentRow \<noteq> [] \<Longrightarrow>
   last currentRow = previousElement \<Longrightarrow>
   separated gap (splitIntoRows_loop gap nodes result currentRow previousElement)"
proof (induction nodes arbitrary: result currentRow previousElement)
  case Nil
  then show ?case by simp
next
  case (Cons child rest)
  show ?case
  proof (cases "areInSameRow gap (segmented gap child) previousElement")
    case True
    have "separated gap (result @ [currentRow @ [segmented gap child]])"
      using Cons.prems(1,2) separated_last_hd[of "currentRow @ [segmented gap child]" currentRow]
      by simp
    then have "separated gap
            (splitIntoRows_loop gap rest result (currentRow @ [segmented gap child])
               (segmented gap child))"
      by (intro Cons.IH) simp_all
    then show ?thesis using True by (simp add: splitIntoRows_loop_step)
  next
    case False
    have "separated gap ((result @ [currentRow]) @ [[segmented gap child]])"
      using Cons.prems False by (simp add: separated_snoc)
    then have "separated gap
            (splitIntoRows_loop gap rest (result @ [currentRow]) [segmented gap child]
               (segmented gap child))"
      by (intro Cons.IH) simp_all
    then show ?thesis using False by (simp add: splitIntoRows_loop_step)
  qed
qed

text \<open>Whatever the threshold, a group in the same row as the element before it joins
  the row of that element; two nodes at the same height and taller than the threshold
  are in the same row.\<close>

lemma splitIntoRows_group_joins_row:
  "areInSameRow gap (segmented gap (GroupN g)) (Element e) \<Longrightarrow>
   splitIntoRows gap (Some [Element e, GroupN g]) = [[Element e, segmented gap (GroupN g)]]"
  by (simp add: Let_def)

lemma areInSameRow_same_band:
  "node_y a = node_y b \<Longrightarrow> node_height a = node_height b \<Longrightarrow> gap < node_height a \<Longrightarrow>
   areInSameRow gap a b"
  by (simp add: areInSameRow_def Let_def)

text \<open>
  C1, as the claim states it, fails: a group that overlaps the sibling before it is
  pushed into that sibling's row, so no row holds the group alone. Here the threshold
  is 0.
\<close>

theorem splitIntoRows_group_shares_row:
  "splitIntoRows 0
     (Some [Element (rect ''a'' 0 0 10 10),
            GroupN (GroupNode ''g'' 20 0 10 10 [Element (rect ''b'' 20 0 10 10)] [])]) =
   [[Element (rect ''a'' 0 0 10 10),
     GroupN (GroupNode ''g'' 20 0 10 10 [Element (rect ''b'' 20 0 10 10)]
               [[Element (rect ''b'' 20 0 10 10)]])]]
   \<and> [GroupN (GroupNode ''g'' 20 0 10 10 [Element (rect ''b'' 20 0 10 10)]
                [[Element (rect ''b'' 20 0 10 10)]])]
       \<notin> set (splitIntoRows 0
           (Some [Element (rect ''a'' 0 0 10 10),
                  GroupN (GroupNode ''g'' 20 0 10 10 [Element (rect ''b'' 20 0 10 10)] [])]))"
  by (simp add: areInSameRow_def with_rows_def Let_def)

text \<open>
  C1, amended. When the first child is an element, every child appears in the rows once
  and at its position: the rows, one after the other, are the children in their order, a
  group with its own children segmented into its \<open>rows\<close> field. No row is empty; a
  child is in the row of the sibling before it exactly when \<^verbatim>\<open>areInSameRow\<close> holds of
  the two: within a row it holds of each node and the one before, and it fails between
  the first node of a row and the last node of the row before. So a group shares a row
  with the siblings it overlaps.
\<close>

theorem splitIntoRows_groups_in_rows:
  "concat (splitIntoRows gap (Some (Element first # rest))) =
     map (segmented gap) (Element first # rest)
   \<and> [] \<notin> set (splitIntoRows gap (Some (Element first # rest)))
   \<and> list_all (chained gap) (splitIntoRows gap (Some (Element first # rest)))
   \<and> separated gap (splitIntoRows gap (Some (Element first # rest)))"
proof -
  have eq: "splitIntoRows gap (Some (Element first # rest)) =
              splitIntoRows_loop gap rest [] [Element first] (Element first)"
    by simp
  show ?thesis
    unfolding eq
    by (simp add: splitIntoRows_loop_concat splitIntoRows_loop_chained
        splitIntoRows_loop_separated splitIntoRows_loop_no_empty_row)
qed

text \<open>An element, a group beside it and a group below both: two rows.\<close>

theorem splitIntoRows_groups_in_rows_witness:
  "concat (splitIntoRows 0
     (Some [Element (rect ''a'' 0 0 10 10),
            GroupN (GroupNode ''g'' 20 0 10 10 [Element (rect ''b'' 20 0 10 10)] []),
            GroupN (GroupNode ''h'' 0 30 10 10 [] [])])) =
   [Element (rect ''a'' 0 0 10 10),
    GroupN (GroupNode ''g'' 20 0 10 10 [Element (rect ''b'' 20 0 10 10)]
              [[Element (rect ''b'' 20 0 10 10)]]),
    GroupN (GroupNode ''h'' 0 30 10 10 [] [])]
   \<and> separated 0 (splitIntoRows 0
     (Some [Element (rect ''a'' 0 0 10 10),
            GroupN (GroupNode ''g'' 20 0 10 10 [Element (rect ''b'' 20 0 10 10)] []),
            GroupN (GroupNode ''h'' 0 30 10 10 [] [])]))"
  using splitIntoRows_groups_in_rows
    [of 0 "rect ''a'' 0 0 10 10"
        "[GroupN (GroupNode ''g'' 20 0 10 10 [Element (rect ''b'' 20 0 10 10)] []),
          GroupN (GroupNode ''h'' 0 30 10 10 [] [])]"]
  by (simp add: areInSameRow_def with_rows_def Let_def)

section \<open>Termination and the nodes read\<close>

lemma children_smaller: "size_list size (children g) < size g"
  by (cases g) simp

lemma computeGroupNodeBoundingBox_dom_all:
  "All computeGroupNodeBoundingBox_computeGroupNodeBoundingBox_loop_dom"
  by (relation "measure computeGroupNodeBoundingBox_measure")
    (simp_all add: computeGroupNodeBoundingBox_measure_def children_smaller)

lemma splitIntoRows_dom_all: "All splitIntoRows_splitIntoRows_loop_dom"
proof (relation "measure splitIntoRows_measure")
  fix gap :: real and firstChild :: group_node and rest :: "tree_node list"
  show "(Inl (gap, Some (children firstChild)), Inl (gap, Some (GroupN firstChild # rest)))
        \<in> measure splitIntoRows_measure"
    using children_smaller[of firstChild] by (simp add: splitIntoRows_measure_def)
next
  fix gap :: real and groupNode :: group_node and rest :: "tree_node list"
    and result :: "RowItem list" and currentRow :: RowItem and previousElement :: tree_node
  show "(Inl (gap, Some (children groupNode)),
         Inr (gap, GroupN groupNode # rest, result, currentRow, previousElement))
        \<in> measure splitIntoRows_measure"
    using children_smaller[of groupNode] by (simp add: splitIntoRows_measure_def)
qed (simp_all add: splitIntoRows_measure_def)

text \<open>The functions that record what they read return what the functions return.\<close>

lemma computeGroupNodeBoundingBox_visiting_result:
  "fst (computeGroupNodeBoundingBox_visiting path g) = computeGroupNodeBoundingBox g"
  "fst (computeGroupNodeBoundingBox_loop_visiting path i nodes bb) =
     computeGroupNodeBoundingBox_loop nodes bb"
proof (induction path g and path i nodes bb
      rule: computeGroupNodeBoundingBox_visiting_computeGroupNodeBoundingBox_loop_visiting.induct)
  case (3 path i child rest bb)
  obtain box inner where
    v: "computeGroupNodeBoundingBox_visiting (path @ [i]) child = (box, inner)"
    by (cases "computeGroupNodeBoundingBox_visiting (path @ [i]) child")
  have box: "box = computeGroupNodeBoundingBox child"
    using "3.IH"(1) v by simp
  show ?case
    using "3.IH"(2)[OF refl v[symmetric]] v box by (simp add: split_beta Let_def)
qed (simp_all add: Let_def split_beta)

lemma splitIntoRows_visiting_result:
  "fst (splitIntoRows_visiting path gap nodes) = splitIntoRows gap nodes"
  "fst (splitIntoRows_loop_visiting path i gap ns result currentRow previousElement) =
     splitIntoRows_loop gap ns result currentRow previousElement"
proof (induction path gap nodes and path i gap ns result currentRow previousElement
      rule: splitIntoRows_visiting_splitIntoRows_loop_visiting.induct)
  case (6 path i gap groupNode rest result currentRow previousElement)
  obtain rs inner where
    v: "splitIntoRows_visiting (path @ [i]) gap (Some (children groupNode)) = (rs, inner)"
    by (cases "splitIntoRows_visiting (path @ [i]) gap (Some (children groupNode))")
  have rs: "rs = splitIntoRows gap (Some (children groupNode))"
    using "6.IH"(1) v by simp
  show ?case
  proof (cases "areInSameRow gap (GroupN (with_rows groupNode rs)) previousElement")
    case True
    then show ?thesis
      using "6.IH"(2)[OF refl v[symmetric] refl True] v rs by (simp add: split_beta Let_def)
  next
    case False
    then show ?thesis
      using "6.IH"(3)[OF refl v[symmetric] refl False] v rs by (simp add: split_beta Let_def)
  qed
qed (simp_all add: Let_def split_beta)

lemma shift_0 [simp]: "shift 0 q = q"
  by (cases q) simp_all

lemma shift_shift [simp]: "shift i (shift j q) = shift (i + j) q"
  by (cases q) simp_all

lemma positions_nonempty [simp]: "[] \<notin> positions nodes"
  by (simp add: positions_def)

lemma positions_Nil [simp]: "positions [] = {}"
proof -
  have "node_at [] p = None" for p
    by (cases "([] :: tree_node list, p)" rule: node_at.cases) simp_all
  then show ?thesis by (simp add: positions_def)
qed

lemma node_at_Cons_0:
  "node_at (n # ns) (0 # q) =
     (if q = [] then Some n
      else case n of GroupN g \<Rightarrow> node_at (children g) q | Element e \<Rightarrow> None)"
  by (cases q) (simp_all split: tree_node.splits)

lemma node_at_Cons_Suc: "node_at (n # ns) (Suc k # q) = node_at ns (k # q)"
  by (cases q) simp_all

lemma positions_Cons:
  "positions (n # ns) =
     insert [0] ((\<lambda>q. 0 # q) ` (case n of GroupN g \<Rightarrow> positions (children g) | Element e \<Rightarrow> {})
                 \<union> shift 1 ` positions ns)"
proof (rule set_eqI)
  fix p
  show "p \<in> positions (n # ns) \<longleftrightarrow>
        p \<in> insert [0] ((\<lambda>q. 0 # q) ` (case n of GroupN g \<Rightarrow> positions (children g) | Element e \<Rightarrow> {})
                 \<union> shift 1 ` positions ns)"
  proof (cases p)
    case Nil
    have "[] \<notin> shift 1 ` positions ns"
    proof
      assume "[] \<in> shift 1 ` positions ns"
      then obtain r where "r \<in> positions ns" "[] = shift 1 r" by auto
      then show False by (cases r) simp_all
    qed
    then show ?thesis using Nil by auto
  next
    case (Cons k q)
    show ?thesis
    proof (cases k)
      case 0
      have "p \<notin> shift 1 ` positions ns"
      proof
        assume "p \<in> shift 1 ` positions ns"
        then obtain r where "r \<in> positions ns" "p = shift 1 r" by auto
        then show False using Cons 0 by (cases r) simp_all
      qed
      then show ?thesis
        using Cons 0 by (cases n) (auto simp: positions_def node_at_Cons_0)
    next
      case (Suc k')
      have "p \<in> shift 1 ` positions ns \<longleftrightarrow> k' # q \<in> positions ns"
      proof
        assume "p \<in> shift 1 ` positions ns"
        then obtain r where r: "r \<in> positions ns" "p = shift 1 r" by auto
        then show "k' # q \<in> positions ns" using Cons Suc by (cases r) simp_all
      next
        assume "k' # q \<in> positions ns"
        moreover have "p = shift 1 (k' # q)" using Cons Suc by simp
        ultimately show "p \<in> shift 1 ` positions ns" by blast
      qed
      then show ?thesis
        using Cons Suc by (auto simp: positions_def node_at_Cons_Suc)
    qed
  qed
qed

lemma under_Nil [simp]: "under path i [] = {}"
  by (simp add: under_def)

lemma under_Cons:
  "under path i (n # ns) =
     insert (path @ [i])
       ((case n of GroupN g \<Rightarrow> under (path @ [i]) 0 (children g) | Element e \<Rightarrow> {})
        \<union> under path (Suc i) ns)"
  by (cases n) (auto simp: under_def positions_Cons image_Un image_image)

lemma under_form: "p \<in> under path i nodes \<Longrightarrow> \<exists>k q. p = path @ (i + k) # q"
proof -
  assume "p \<in> under path i nodes"
  then obtain r where r: "r \<in> positions nodes" "p = path @ shift i r"
    by (auto simp: under_def)
  then show ?thesis by (cases r) auto
qed

lemma under_not_self: "path @ [i] \<notin> under (path @ [i]) j nodes"
  using under_form[of "path @ [i]" "path @ [i]" j nodes] by auto

lemma under_not_before: "path @ [i] \<notin> under path (Suc i) nodes"
  using under_form[of "path @ [i]" path "Suc i" nodes] by auto

lemma under_disjoint: "under (path @ [i]) j cs \<inter> under path (Suc i) ns = {}"
proof (rule ccontr)
  assume "under (path @ [i]) j cs \<inter> under path (Suc i) ns \<noteq> {}"
  then obtain p where "p \<in> under (path @ [i]) j cs" "p \<in> under path (Suc i) ns" by auto
  then obtain k q k' q' where "p = (path @ [i]) @ (j + k) # q" "p = path @ (Suc i + k') # q'"
    using under_form by meson
  then show False by simp
qed

lemma computeGroupNodeBoundingBox_visiting_trace:
  "set (snd (computeGroupNodeBoundingBox_visiting path g)) = under path 0 (children g)
   \<and> distinct (snd (computeGroupNodeBoundingBox_visiting path g))"
  "set (snd (computeGroupNodeBoundingBox_loop_visiting path i nodes bb)) = under path i nodes
   \<and> distinct (snd (computeGroupNodeBoundingBox_loop_visiting path i nodes bb))"
proof (induction path g and path i nodes bb
      rule: computeGroupNodeBoundingBox_visiting_computeGroupNodeBoundingBox_loop_visiting.induct)
  case (1 path node)
  then show ?case by simp
next
  case (2 path i bb)
  then show ?case by simp
next
  case (3 path i child rest bb)
  obtain box inner where
    v: "computeGroupNodeBoundingBox_visiting (path @ [i]) child = (box, inner)"
    by (cases "computeGroupNodeBoundingBox_visiting (path @ [i]) child")
  have inner: "set inner = under (path @ [i]) 0 (children child)" "distinct inner"
    using "3.IH"(1) v by simp_all
  let ?bb = "\<lparr>minX = min (minX bb) (minX box), minY = min (minY bb) (minY box),
              maxX = max (maxX bb) (maxX box), maxY = max (maxY bb) (maxY box)\<rparr>"
  let ?later = "snd (computeGroupNodeBoundingBox_loop_visiting path (Suc i) rest ?bb)"
  have later: "set ?later = under path (Suc i) rest" "distinct ?later"
    using "3.IH"(2)[OF refl v[symmetric]] by simp_all
  have tr: "snd (computeGroupNodeBoundingBox_loop_visiting path i (GroupN child # rest) bb) =
              (path @ [i]) # inner @ ?later"
    using v by (simp add: split_beta Let_def)
  show ?case
    unfolding tr
    using inner later under_not_self[of path i 0 "children child"]
      under_not_before[of path i rest] under_disjoint[of path i 0 "children child" rest]
    by (simp add: under_Cons)
next
  case (4 path i child rest bb)
  let ?bb = "\<lparr>minX = min (minX bb) (Finite (el_x child)),
              minY = min (minY bb) (Finite (el_y child)),
              maxX = max (maxX bb) (Finite (el_x child + el_width child)),
              maxY = max (maxY bb) (Finite (el_y child + el_height child))\<rparr>"
  let ?later = "snd (computeGroupNodeBoundingBox_loop_visiting path (Suc i) rest ?bb)"
  have later: "set ?later = under path (Suc i) rest" "distinct ?later"
    using "4.IH" by simp_all
  have tr: "snd (computeGroupNodeBoundingBox_loop_visiting path i (Element child # rest) bb) =
              (path @ [i]) # ?later"
    by (simp add: split_beta Let_def)
  show ?case
    unfolding tr using later under_not_before[of path i rest]
    by (simp add: under_Cons)
qed

lemma splitIntoRows_visiting_trace:
  "set (snd (splitIntoRows_visiting path gap nodes))
     \<subseteq> (case nodes of None \<Rightarrow> {} | Some ns \<Rightarrow> under path 0 ns)
   \<and> distinct (snd (splitIntoRows_visiting path gap nodes))"
  "set (snd (splitIntoRows_loop_visiting path i gap ns result currentRow previousElement))
     \<subseteq> under path i ns
   \<and> distinct (snd (splitIntoRows_loop_visiting path i gap ns result currentRow previousElement))"
proof (induction path gap nodes and path i gap ns result currentRow previousElement
      rule: splitIntoRows_visiting_splitIntoRows_loop_visiting.induct)
  case (1 path gap)
  then show ?case by simp
next
  case (2 path gap)
  then show ?case by simp
next
  case (3 path gap firstChild rest)
  obtain rs inner where
    v: "splitIntoRows_visiting (path @ [0]) gap (Some (children firstChild)) = (rs, inner)"
    by (cases "splitIntoRows_visiting (path @ [0]) gap (Some (children firstChild))")
  have inner: "set inner \<subseteq> under (path @ [0]) 0 (children firstChild)" "distinct inner"
    using "3.IH" v by simp_all
  have tr: "snd (splitIntoRows_visiting path gap (Some (GroupN firstChild # rest))) =
              (path @ [0]) # inner"
    using v by (simp add: split_beta)
  show ?case
    unfolding tr
    using inner under_not_self[of path 0 0 "children firstChild"]
    by (auto simp: under_Cons)
next
  case (4 path gap firstChild rest)
  let ?later = "snd (splitIntoRows_loop_visiting path 1 gap rest [] [Element firstChild]
                       (Element firstChild))"
  have later: "set ?later \<subseteq> under path (Suc 0) rest" "distinct ?later"
    using "4.IH" by simp_all
  have tr: "snd (splitIntoRows_visiting path gap (Some (Element firstChild # rest))) =
              (path @ [0]) # ?later"
    by (simp add: split_beta)
  show ?case
    unfolding tr using later under_not_before[of path 0 rest]
    by (auto simp: under_Cons)
next
  case (5 path i gap result currentRow previousElement)
  then show ?case by simp
next
  case (6 path i gap groupNode rest result currentRow previousElement)
  obtain rs inner where
    v: "splitIntoRows_visiting (path @ [i]) gap (Some (children groupNode)) = (rs, inner)"
    by (cases "splitIntoRows_visiting (path @ [i]) gap (Some (children groupNode))")
  have inner: "set inner \<subseteq> under (path @ [i]) 0 (children groupNode)" "distinct inner"
    using "6.IH"(1) v by simp_all
  let ?row = "GroupN (with_rows groupNode rs)"
  let ?later = "snd (if areInSameRow gap ?row previousElement
                     then splitIntoRows_loop_visiting path (Suc i) gap rest result
                            (currentRow @ [?row]) ?row
                     else splitIntoRows_loop_visiting path (Suc i) gap rest
                            (result @ [currentRow]) [?row] ?row)"
  have later: "set ?later \<subseteq> under path (Suc i) rest \<and> distinct ?later"
  proof (cases "areInSameRow gap ?row previousElement")
    case True
    then show ?thesis using "6.IH"(2)[OF refl v[symmetric] refl True] by simp
  next
    case False
    then show ?thesis using "6.IH"(3)[OF refl v[symmetric] refl False] by simp
  qed
  have tr: "snd (splitIntoRows_loop_visiting path i gap (GroupN groupNode # rest) result
                   currentRow previousElement) = (path @ [i]) # inner @ ?later"
    using v by (simp add: split_beta Let_def)
  have disj: "set inner \<inter> set ?later = {}"
    using inner(1) later under_disjoint[of path i 0 "children groupNode" rest] by blast
  have n1: "path @ [i] \<notin> set inner"
    using inner(1) under_not_self[of path i 0 "children groupNode"] by blast
  have n2: "path @ [i] \<notin> set ?later"
    using later under_not_before[of path i rest] by blast
  have sub: "set ((path @ [i]) # inner @ ?later)
               \<subseteq> under path i (GroupN groupNode # rest)"
    using inner(1) later by (auto simp: under_Cons)
  show ?case
    unfolding tr using sub disj n1 n2 inner(2) later by simp
next
  case (7 path i gap child rest result currentRow previousElement)
  let ?later = "snd (if areInSameRow gap (Element child) previousElement
                     then splitIntoRows_loop_visiting path (Suc i) gap rest result
                            (currentRow @ [Element child]) (Element child)
                     else splitIntoRows_loop_visiting path (Suc i) gap rest
                            (result @ [currentRow]) [Element child] (Element child))"
  have later: "set ?later \<subseteq> under path (Suc i) rest \<and> distinct ?later"
  proof (cases "areInSameRow gap (Element child) previousElement")
    case True
    then show ?thesis using "7.IH"(1) by simp
  next
    case False
    then show ?thesis using "7.IH"(2) by simp
  qed
  have tr: "snd (splitIntoRows_loop_visiting path i gap (Element child # rest) result
                   currentRow previousElement) = (path @ [i]) # ?later"
    by (simp add: split_beta)
  have n2: "path @ [i] \<notin> set ?later"
    using later under_not_before[of path i rest] by blast
  have sub: "set ((path @ [i]) # ?later) \<subseteq> under path i (Element child # rest)"
    using later by (auto simp: under_Cons)
  show ?case
    unfolding tr using sub n2 later by simp
qed

lemma under_empty_path: "under [] 0 nodes = positions nodes"
  by (simp add: under_def)

text \<open>
  C9. Both recursions terminate on every input: every argument is in the accessible part
  of the call relation of \<^verbatim>\<open>computeGroupNodeBoundingBox\<close> and of \<^verbatim>\<open>splitIntoRows\<close>, a
  recursive call going from a group to its children, which are smaller than the group.
  In a call no node is read twice: the positions that \<^verbatim>\<open>computeGroupNodeBoundingBox\<close>
  reads are the positions of the nodes below the group, each once, and the positions
  that \<^verbatim>\<open>splitIntoRows\<close> reads are positions of nodes of its input, each once.
\<close>

theorem recursion_total_each_node_once:
  "computeGroupNodeBoundingBox_computeGroupNodeBoundingBox_loop_dom (Inl g)
   \<and> splitIntoRows_splitIntoRows_loop_dom (Inl (gap, nodes))
   \<and> size_list size (children g) < size g
   \<and> fst (computeGroupNodeBoundingBox_visiting [] g) = computeGroupNodeBoundingBox g
   \<and> set (snd (computeGroupNodeBoundingBox_visiting [] g)) = {p. node_at (children g) p \<noteq> None}
   \<and> distinct (snd (computeGroupNodeBoundingBox_visiting [] g))
   \<and> fst (splitIntoRows_visiting [] gap nodes) = splitIntoRows gap nodes
   \<and> set (snd (splitIntoRows_visiting [] gap (Some ns))) \<subseteq> {p. node_at ns p \<noteq> None}
   \<and> distinct (snd (splitIntoRows_visiting [] gap nodes))"
  using computeGroupNodeBoundingBox_dom_all splitIntoRows_dom_all children_smaller[of g]
    computeGroupNodeBoundingBox_visiting_result(1)[of "[]" g]
    computeGroupNodeBoundingBox_visiting_trace(1)[of "[]" g]
    splitIntoRows_visiting_result(1)[of "[]" gap nodes]
    splitIntoRows_visiting_trace(1)[of "[]" gap "Some ns"]
    splitIntoRows_visiting_trace(1)[of "[]" gap nodes]
  by (simp add: under_empty_path positions_def)

text \<open>A group of an element, a nested group and an element: four nodes, read in order.
  A sequence of a group and an element: the group and its child are read.\<close>

theorem recursion_total_each_node_once_witness:
  "computeGroupNodeBoundingBox_visiting []
     (GroupNode ''g'' 0 0 0 0
        [Element (rect ''a'' 1 2 3 4),
         GroupN (GroupNode ''h'' 0 0 0 0 [Element (rect ''b'' 5 6 7 8)] []),
         Element (rect ''c'' 0 0 1 1)] []) =
   (\<lparr>minX = Finite 0, minY = Finite 0, maxX = Finite 12, maxY = Finite 14\<rparr>,
    [[0], [1], [1, 0], [2]])
   \<and> splitIntoRows_visiting [] 0
     (Some [GroupN (GroupNode ''h'' 0 0 0 0 [Element (rect ''b'' 5 6 7 8)] []),
            Element (rect ''c'' 0 0 1 1)]) =
   ([[GroupN (GroupNode ''h'' 0 0 0 0 [Element (rect ''b'' 5 6 7 8)]
                [[Element (rect ''b'' 5 6 7 8)]])]],
    [[0], [0, 0]])"
  using recursion_total_each_node_once
    [of "GroupNode ''g'' 0 0 0 0
        [Element (rect ''a'' 1 2 3 4),
         GroupN (GroupNode ''h'' 0 0 0 0 [Element (rect ''b'' 5 6 7 8)] []),
         Element (rect ''c'' 0 0 1 1)] []"
        0
        "Some [GroupN (GroupNode ''h'' 0 0 0 0 [Element (rect ''b'' 5 6 7 8)] []),
               Element (rect ''c'' 0 0 1 1)]"
        "[GroupN (GroupNode ''h'' 0 0 0 0 [Element (rect ''b'' 5 6 7 8)] []),
          Element (rect ''c'' 0 0 1 1)]"]
  by (simp add: with_rows_def min_def max_def)

end
